theory Spec2Isabelle
  imports Complex_Main "HOL-Library.Word" "HOL-Library.Multiset"
begin

unbundle bit_operations_syntax

section \<open>Errors and results\<close>

text \<open>
  The JavaScript source signals failure by throwing. \<open>InvalidArgument\<close> is the error of
  \<open>_locations\<close> (fingerprint length above the hash length), \<open>FilterFull\<close> the error of
  \<open>add\<close> with \<open>throwError\<close>, and \<open>TypeError\<close> what the runtime raises when a method is
  called on \<open>undefined\<close> (an array read outside its bounds, or at the index \<open>NaN\<close>).
\<close>

datatype error = InvalidArgument | FilterFull | TypeError

datatype 'a outcome = Return 'a | Throw error

section \<open>Bucket\<close>

text \<open>
  Modelled from the spec: the class \<open>Bucket\<close> (bucket.js) is not among the sources. The spec
  describes it as a fixed-capacity ordered sequence of up to \<open>bucketSize\<close> fingerprints, with
  add, remove, has and the positional operations at and set. The record holds the capacity
  \<open>_size\<close> and the sequence \<open>_elements\<close> of the export format.
\<close>

record bucket =
  bk_size :: nat
  bk_elements :: "string list"

text \<open>Modelled from the spec: the constructor of \<open>Bucket\<close>, an empty bucket of a capacity.\<close>

definition Bucket :: "nat \<Rightarrow> bucket" where
  "Bucket capacity = \<lparr>bk_size = capacity, bk_elements = []\<rparr>"

text \<open>Modelled from the spec: \<open>Bucket.length\<close>, the number of fingerprints held.\<close>

definition bk_length :: "bucket \<Rightarrow> nat" where
  "bk_length b = length (bk_elements b)"

text \<open>Modelled from the spec: \<open>Bucket.isFree\<close>; a bucket is free iff length < bucketSize.\<close>

definition isFree :: "bucket \<Rightarrow> bool" where
  "isFree b = (bk_length b < bk_size b)"

text \<open>
  Modelled from the spec: \<open>Bucket.add\<close>; the length never exceeds the capacity, so a full
  bucket takes nothing.
\<close>

definition bk_add :: "bucket \<Rightarrow> string \<Rightarrow> bucket" where
  "bk_add b e = (if isFree b then b\<lparr>bk_elements := bk_elements b @ [e]\<rparr> else b)"

text \<open>Modelled from the spec: \<open>Bucket.has\<close>, membership of a fingerprint.\<close>

definition bk_has :: "bucket \<Rightarrow> string \<Rightarrow> bool" where
  "bk_has b e = (e \<in> set (bk_elements b))"

text \<open>Modelled from the spec: \<open>Bucket.remove\<close> removes the first matching fingerprint.\<close>

definition bk_remove :: "bucket \<Rightarrow> string \<Rightarrow> bucket" where
  "bk_remove b e = b\<lparr>bk_elements := remove1 e (bk_elements b)\<rparr>"

text \<open>
  Modelled from the spec: \<open>Bucket.at\<close>, position-preserving; it yields \<open>None\<close> (the
  source's null) where the position holds no fingerprint.
\<close>

definition bk_at :: "bucket \<Rightarrow> int \<Rightarrow> string option" where
  "bk_at b i = (if 0 \<le> i \<and> i < int (bk_length b) then Some (bk_elements b ! nat i) else None)"

text \<open>
  Modelled from the spec: \<open>Bucket.set\<close>, position-preserving; it overwrites a held position,
  and the capacity being fixed, another position has no slot to write.
\<close>

definition bk_set :: "bucket \<Rightarrow> int \<Rightarrow> string \<Rightarrow> bucket" where
  "bk_set b i e =
     (if 0 \<le> i \<and> i < int (bk_length b) then b\<lparr>bk_elements := (bk_elements b)[nat i := e]\<rparr>
      else b)"

section \<open>Base filter: seed, random source, hash library\<close>

text \<open>
  Modelled from the spec: the class \<open>BaseFilter\<close> (base-filter.js) is not among the sources.
  Every filter carries a seed, a seeded source of uniform numbers in \<open>[0,1)\<close> and the hashing
  library. The random source is the stream of numbers it will still produce. The 64-bit hash
  \<open>xxh64\<close> is an external library and stays a field of the filter, as
  \<open>this._hashing._lib.xxh64\<close> is in the source. JavaScript numbers that are not array
  positions are real numbers here.
\<close>

record base_filter =
  bf_seed :: int
  bf_rng :: "nat \<Rightarrow> real"
  bf_xxh64 :: "string \<Rightarrow> int \<Rightarrow> 64 word"

text \<open>
  Modelled from the spec: \<open>randomInt\<close> (utils.js) is not among the sources. The spec gives
  the integer drawn in \<open>[lo, hi]\<close> from a uniform \<open>u\<close> as \<open>lo + floor(u * (hi - lo + 1))\<close>.
\<close>

definition randomInt :: "int \<Rightarrow> int \<Rightarrow> real \<Rightarrow> int" where
  "randomInt lo hi u = lo + \<lfloor>u * real_of_int (hi - lo + 1)\<rfloor>"

text \<open>
  Modelled from the spec: \<open>getNearestPow2\<close> (utils.js) is not among the sources. The spec
  has the requested number of buckets rounded up to the next power of two; \<open>pow2_from\<close>
  doubles a power of two until it reaches the argument.
\<close>

function pow2_from :: "nat \<Rightarrow> nat \<Rightarrow> nat" where
  "pow2_from p n = (if n \<le> p \<or> p = 0 then p else pow2_from (2 * p) n)"
  by pat_completeness auto
termination
  by (relation "measure (\<lambda>(p, n). n - p)") auto

declare pow2_from.simps [simp del]

text \<open>
  Modelled from the spec: \<open>getNearestPow2\<close> on a big integer, the least power of two at or
  above it.
\<close>

definition getNearestPow2 :: "int \<Rightarrow> int" where
  "getNearestPow2 x = int (pow2_from 1 (nat x))"

section \<open>Cuckoo filter\<close>

record cuckoo = base_filter +
  cf_filter :: "bucket list"
  cf_size :: nat
  cf_bucketSize :: nat
  cf_fingerprintLength :: int
  cf_length :: int
  cf_maxKicks :: nat

text \<open>
  The constructor; \<open>super\<close> is what the base class constructor sets up. \<open>allocateArray\<close>
  builds \<open>s\<close> buckets, and \<open>BigInt.asUintN(32, _)\<close> keeps the low 32 bits.
\<close>

definition CuckooFilter :: "base_filter \<Rightarrow> int \<Rightarrow> int \<Rightarrow> nat \<Rightarrow> nat \<Rightarrow> cuckoo" where
  "CuckooFilter super sz fingerprintSize bucketSize maxKicks =
     (let s = nat (take_bit 32 (getNearestPow2 sz))
      in \<lparr>bf_seed = bf_seed super, bf_rng = bf_rng super, bf_xxh64 = bf_xxh64 super,
          cf_filter = replicate s (Bucket bucketSize),
          cf_size = s,
          cf_bucketSize = bucketSize,
          cf_fingerprintLength = fingerprintSize,
          cf_length = 0,
          cf_maxKicks = maxKicks\<rparr>)"

definition hash :: "cuckoo \<Rightarrow> string \<Rightarrow> 64 word" where
  "hash f element = bf_xxh64 f element (bf_seed f)"

text \<open>
  Numbers. A JavaScript number is a double-precision float; the model takes it as the real
  number it denotes. The quotient and the sum of two numbers are the exact result rounded to
  a double, and a decimal literal such as \<open>0.955\<close> denotes the double next to it;
  \<open>Math.log2\<close> returns an approximation that depends on the implementation. The rounding
  and \<open>Math.log2\<close> are the two fields of \<open>arith\<close>, a parameter of \<open>computeFingerpintLength\<close>
  and \<open>create\<close>. \<open>2 * size\<close>, \<open>Math.max\<close> and \<open>Math.ceil\<close> are exact. \<open>Infinity\<close> and \<open>NaN\<close>,
  with which the source computes for an error rate of 0 and for a bucket size of 0, are not
  represented.
\<close>

record arith =
  ar_round :: "real \<Rightarrow> real"
  ar_log2 :: "real \<Rightarrow> real"

definition computeFingerpintLength :: "arith \<Rightarrow> nat \<Rightarrow> real \<Rightarrow> int" where
  "computeFingerpintLength A sz rate =
     \<lceil>ar_round A (ar_log2 A (ar_round A (1 / rate)) + ar_log2 A (2 * real sz))\<rceil>"

definition create :: "arith \<Rightarrow> base_filter \<Rightarrow> real \<Rightarrow> real \<Rightarrow> nat \<Rightarrow> nat \<Rightarrow> cuckoo" where
  "create A super sz errorRate bucketSize maxKicks =
     (let fl = computeFingerpintLength A bucketSize errorRate;
          capacity = \<lceil>ar_round A (ar_round A (max sz 32 / real bucketSize) / ar_round A 0.955)\<rceil>
      in CuckooFilter super capacity fl bucketSize maxKicks)"

text \<open>
  Modelled from the spec: \<open>random\<close> of the base class is not among the sources; it returns
  the next number of the seeded source and advances the stream.
\<close>

definition random :: "cuckoo \<Rightarrow> real \<times> cuckoo" where
  "random f = (bf_rng f 0, f\<lparr>bf_rng := \<lambda>n. bf_rng f (Suc n)\<rparr>)"

subsection \<open>Locations\<close>

text \<open>\<open>toString(2)\<close> of a non-negative big integer, and \<open>padStart\<close> with a single character.\<close>

fun toString2 :: "nat \<Rightarrow> string" where
  "toString2 n =
     (if n < 2 then [if n = 0 then CHR ''0'' else CHR ''1'']
      else toString2 (n div 2) @ [if n mod 2 = 0 then CHR ''0'' else CHR ''1''])"

declare toString2.simps [simp del]

definition padStart :: "nat \<Rightarrow> char \<Rightarrow> string \<Rightarrow> string" where
  "padStart n c s = replicate (n - length s) c @ s"

text \<open>
  The remainder \<open>a % b\<close> of two non-negative numbers; it is \<open>NaN\<close> for \<open>b = 0\<close>,
  which is \<open>None\<close> here.
\<close>

definition js_mod :: "nat \<Rightarrow> nat \<Rightarrow> nat option" where
  "js_mod a b = (if b = 0 then None else Some (a mod b))"

record locations =
  fingerprint :: string
  firstIndex :: "nat option"
  secondIndex :: "nat option"

definition locations_of :: "cuckoo \<Rightarrow> string \<Rightarrow> error + locations" where
  "locations_of f element =
     (let h = hash f element;
          hashstr = padStart 64 (CHR ''0'') (toString2 (unat h))
      in if cf_fingerprintLength f > int (length hashstr) then Inl InvalidArgument
         else
           let fp = drop (nat (int (length hashstr) - cf_fingerprintLength f)) hashstr;
               first = h;
               second = first XOR hash f fp
           in Inr \<lparr>fingerprint = fp,
                   firstIndex = js_mod (unat (take_bit 32 first)) (cf_size f),
                   secondIndex = js_mod (unat (take_bit 32 second)) (cf_size f)\<rparr>)"

subsection \<open>Reading and writing a bucket of the filter\<close>

text \<open>
  \<open>this._filter[i]\<close> is \<open>undefined\<close> outside the array and at the index \<open>NaN\<close>; calling
  a method on it raises a \<open>TypeError\<close>. \<open>bucketAt\<close> returns the position with the bucket.
\<close>

definition bucketAt :: "cuckoo \<Rightarrow> nat option \<Rightarrow> (nat \<times> bucket) option" where
  "bucketAt f idx =
     (case idx of
        None \<Rightarrow> None
      | Some i \<Rightarrow> if i < length (cf_filter f) then Some (i, cf_filter f ! i) else None)"

definition putBucket :: "cuckoo \<Rightarrow> nat \<Rightarrow> bucket \<Rightarrow> cuckoo" where
  "putBucket f i b = f\<lparr>cf_filter := (cf_filter f)[i := b]\<rparr>"

subsection \<open>add\<close>

text \<open>
  An entry of the undo log: bucket index, slot, and the fingerprint the slot held. The source
  pushes at the end of the array and pops from the end.
\<close>

type_synonym log = "nat \<times> int \<times> string"

datatype kick_result = Inserted cuckoo | Exhausted cuckoo "log list" | Crashed cuckoo

text \<open>
  The eviction loop \<open>for (nbTry = 0; nbTry < this._maxKicks; nbTry++)\<close>; the first argument counts
  the iterations left. A null fingerprint read from the bucket reaches the external hash after
  the slot has been written; the model stops there with \<open>Crashed\<close>, as it does when the next
  bucket is \<open>undefined\<close>.
\<close>

fun kicks :: "nat \<Rightarrow> cuckoo \<Rightarrow> nat \<Rightarrow> string \<Rightarrow> log list \<Rightarrow> kick_result" where
  "kicks 0 f index fp logs = Exhausted f logs"
| "kicks (Suc n) f index fp logs =
     (case bucketAt f (Some index) of
        None \<Rightarrow> Crashed f
      | Some (i, b) \<Rightarrow>
          (let (u, f1) = random f;
               rndIndex = randomInt 0 (int (bk_length b) - 1) u
           in (case bk_at b rndIndex of
                 None \<Rightarrow> Crashed (putBucket f1 i (bk_set b rndIndex fp))
               | Some tmp \<Rightarrow>
                   (let f2 = putBucket f1 i (bk_set b rndIndex fp)
                    in (case bucketAt f2
                               (js_mod (take_bit 32 (index XOR unat (hash f2 tmp))) (cf_size f2)) of
                          None \<Rightarrow> Crashed f2
                        | Some (j, b') \<Rightarrow>
                            (if isFree b'
                             then Inserted
                                    ((putBucket f2 j (bk_add b' tmp))\<lparr>cf_length := cf_length f2 + 1\<rparr>)
                             else kicks n f2 j tmp (logs @ [(i, rndIndex, tmp)])))))))"

text \<open>
  The rollback \<open>while ((log = logs.pop())) { this._filter[log[0]].set(log[1], log[2]) }\<close>.
\<close>

function rollback :: "cuckoo \<Rightarrow> log list \<Rightarrow> unit outcome \<times> cuckoo" where
  "rollback f logs =
     (if logs = [] then (Return (), f)
      else case last logs of (i, slot, old) \<Rightarrow>
        (case bucketAt f (Some i) of
           None \<Rightarrow> (Throw TypeError, f)
         | Some (j, b) \<Rightarrow> rollback (putBucket f j (bk_set b slot old)) (butlast logs)))"
  by pat_completeness auto
termination
  by (relation "measure (\<lambda>(f, logs). length logs)") auto

declare rollback.simps [simp del]

definition add :: "cuckoo \<Rightarrow> string \<Rightarrow> bool \<Rightarrow> bool \<Rightarrow> bool outcome \<times> cuckoo" where
  "add f element throwError destructive =
     (case locations_of f element of
        Inl e \<Rightarrow> (Throw e, f)
      | Inr loc \<Rightarrow>
          (case bucketAt f (firstIndex loc) of
             None \<Rightarrow> (Throw TypeError, f)
           | Some (i1, b1) \<Rightarrow>
               if isFree b1
               then (Return True,
                     (putBucket f i1 (bk_add b1 (fingerprint loc)))\<lparr>cf_length := cf_length f + 1\<rparr>)
               else
                 (case bucketAt f (secondIndex loc) of
                    None \<Rightarrow> (Throw TypeError, f)
                  | Some (i2, b2) \<Rightarrow>
                      if isFree b2
                      then (Return True,
                            (putBucket f i2 (bk_add b2 (fingerprint loc)))\<lparr>cf_length := cf_length f + 1\<rparr>)
                      else
                        (let (u, f1) = random f;
                             index = (if u < 0.5 then i1 else i2)
                         in (case kicks (cf_maxKicks f1) f1 index (fingerprint loc) [] of
                               Inserted f' \<Rightarrow> (Return True, f')
                             | Crashed f' \<Rightarrow> (Throw TypeError, f')
                             | Exhausted f' logs \<Rightarrow>
                                 (case (if \<not> destructive then rollback f' logs
                                        else (Return (), f')) of
                                    (Throw e, f'') \<Rightarrow> (Throw e, f'')
                                  | (Return _, f'') \<Rightarrow>
                                      (if throwError then (Throw FilterFull, f'')
                                       else (Return False, f''))))))))"

subsection \<open>remove, has, equals\<close>

definition remove :: "cuckoo \<Rightarrow> string \<Rightarrow> bool outcome \<times> cuckoo" where
  "remove f element =
     (case locations_of f element of
        Inl e \<Rightarrow> (Throw e, f)
      | Inr loc \<Rightarrow>
          (case bucketAt f (firstIndex loc) of
             None \<Rightarrow> (Throw TypeError, f)
           | Some (i1, b1) \<Rightarrow>
               if bk_has b1 (fingerprint loc)
               then (Return True,
                     (putBucket f i1 (bk_remove b1 (fingerprint loc)))\<lparr>cf_length := cf_length f - 1\<rparr>)
               else
                 (case bucketAt f (secondIndex loc) of
                    None \<Rightarrow> (Throw TypeError, f)
                  | Some (i2, b2) \<Rightarrow>
                      if bk_has b2 (fingerprint loc)
                      then (Return True,
                            (putBucket f i2 (bk_remove b2 (fingerprint loc)))\<lparr>cf_length := cf_length f - 1\<rparr>)
                      else (Return False, f))))"

definition has :: "cuckoo \<Rightarrow> string \<Rightarrow> bool outcome" where
  "has f element =
     (case locations_of f element of
        Inl e \<Rightarrow> Throw e
      | Inr loc \<Rightarrow>
          (case bucketAt f (firstIndex loc) of
             None \<Rightarrow> Throw TypeError
           | Some (i1, b1) \<Rightarrow>
               if bk_has b1 (fingerprint loc) then Return True
               else
                 (case bucketAt f (secondIndex loc) of
                    None \<Rightarrow> Throw TypeError
                  | Some (i2, b2) \<Rightarrow> Return (bk_has b2 (fingerprint loc)))))"

text \<open>
  \<open>equals\<close>: the loop \<open>while (res && i < this._filter.length)\<close>, started at \<open>i = 0\<close> and
  \<open>res = true\<close>. The comparison of two buckets belongs to the absent \<open>Bucket\<close> class and is
  the parameter \<open>bucket_equals\<close>, applied as \<open>filter._filter[i].equals(bucket)\<close>.
\<close>

function equals_loop ::
  "(bucket \<Rightarrow> bucket \<Rightarrow> bool) \<Rightarrow> cuckoo \<Rightarrow> cuckoo \<Rightarrow> nat \<Rightarrow> bool \<Rightarrow> bool outcome" where
  "equals_loop bucket_equals this other i res =
     (if res \<and> i < length (cf_filter this)
      then (case bucketAt other (Some i) of
              None \<Rightarrow> Throw TypeError
            | Some (_, ob) \<Rightarrow>
                equals_loop bucket_equals this other (Suc i)
                  (if \<not> bucket_equals ob (cf_filter this ! i) then False else res))
      else Return res)"
  by pat_completeness auto
termination
  by (relation "measure (\<lambda>(beq, this, other, i, res). length (cf_filter this) - i)") auto

declare equals_loop.simps [simp del]

definition equals :: "(bucket \<Rightarrow> bucket \<Rightarrow> bool) \<Rightarrow> cuckoo \<Rightarrow> cuckoo \<Rightarrow> bool outcome" where
  "equals bucket_equals this other = equals_loop bucket_equals this other 0 True"

text \<open>\<open>_computeHashTableLoad().used\<close>: the sum of the bucket lengths.\<close>

definition used :: "cuckoo \<Rightarrow> int" where
  "used f = foldl (\<lambda>acc val. acc + int (bk_length val)) 0 (cf_filter f)"

section \<open>Auxiliary notions for the statements\<close>

text \<open>
  The binary digit of a bit, and the \<open>w\<close> low bits of a number written most significant
  bit first: the bit string that the fingerprint is compared with.
\<close>

definition digit :: "bool \<Rightarrow> char" where
  "digit b = (if b then CHR ''1'' else CHR ''0'')"

fun bits_msb :: "nat \<Rightarrow> nat \<Rightarrow> string" where
  "bits_msb 0 n = []"
| "bits_msb (Suc w) n = bits_msb w (n div 2) @ [digit (odd n)]"

text \<open>\<open>hashstr.length\<close> in \<open>_locations\<close>: the length of the zero-padded binary string of the hash.\<close>

definition hashLength :: "cuckoo \<Rightarrow> string \<Rightarrow> nat" where
  "hashLength f element = length (padStart 64 (CHR ''0'') (toString2 (unat (hash f element))))"






text \<open>The state in which the eviction loop stops.\<close>

fun kick_state :: "kick_result \<Rightarrow> cuckoo" where
  "kick_state (Inserted f) = f"
| "kick_state (Exhausted f logs) = f"
| "kick_state (Crashed f) = f"


text \<open>
  The fingerprint \<open>t\<close> is stored in bucket \<open>c\<close>; and what no call changes when the seed is
  never reassigned: seed, hash library, \<open>_size\<close>, fingerprint length, number of buckets.
\<close>

definition inBucket :: "cuckoo \<Rightarrow> nat \<Rightarrow> string \<Rightarrow> bool" where
  "inBucket f c t = (c < length (cf_filter f) \<and> t \<in> set (bk_elements (cf_filter f ! c)))"

definition same_setup :: "cuckoo \<Rightarrow> cuckoo \<Rightarrow> bool" where
  "same_setup f g =
     (bf_seed g = bf_seed f \<and> bf_xxh64 g = bf_xxh64 f \<and> cf_size g = cf_size f \<and>
      cf_fingerprintLength g = cf_fingerprintLength f \<and>
      length (cf_filter g) = length (cf_filter f))"

section \<open>Example filters\<close>

text \<open>
  A base with seed 0, a random source that always yields 0 and a toy hash (the length of the
  input); it stands in for the external hash library in the examples.
\<close>

definition demo_base :: base_filter where
  "demo_base = \<lparr>bf_seed = 0, bf_rng = (\<lambda>n. 0), bf_xxh64 = (\<lambda>s seed. word_of_nat (length s))\<rparr>"

text \<open>One bucket of capacity one and a single kick: the smallest filter that can fill up.\<close>

definition tiny :: cuckoo where
  "tiny = CuckooFilter demo_base 1 8 1 1"

definition tiny_a :: cuckoo where
  "tiny_a = snd (add tiny ''a'' False False)"

text \<open>Four buckets of capacity two, fingerprints of seven bits.\<close>

definition small :: cuckoo where
  "small = CuckooFilter demo_base 4 7 2 500"


text \<open>
  Two filters on which the two buckets of an element cannot be looked up: fingerprints of 72
  bits, more than the 64 bits of a hash; and a requested size of \<open>2^32\<close>, of which the
  constructor keeps the low 32 bits, so that there is no bucket at all.
\<close>

definition wide :: cuckoo where
  "wide = CuckooFilter demo_base 4 72 2 500"

definition hollow :: cuckoo where
  "hollow = CuckooFilter demo_base 4294967296 8 1 1"

subsection \<open>Accuracy of the arithmetic\<close>

text \<open>
  What the statement about \<open>create\<close> asks of the arithmetic. \<open>near y x\<close>: the number \<open>y\<close> is
  within a relative error of \<open>2^-53\<close> of \<open>x\<close>, as the double next to \<open>x\<close> is when \<open>x\<close> is neither
  too large nor too small for a double. \<open>accurate A n p bs\<close>: every rounding that
  \<open>create(n, p, bs)\<close> performs is near the exact result, and the two values of \<open>Math.log2\<close> are
  within \<open>2^-40\<close> of the logarithms of their arguments.
\<close>

definition near :: "real \<Rightarrow> real \<Rightarrow> bool" where
  "near y x = (\<bar>y - x\<bar> \<le> \<bar>x\<bar> / 2 ^ 53)"

definition accurate :: "arith \<Rightarrow> real \<Rightarrow> real \<Rightarrow> nat \<Rightarrow> bool" where
  "accurate A n p bs =
     (let r = ar_round A (1 / p);
          l = ar_log2 A r + ar_log2 A (2 * real bs);
          d = ar_round A (max n 32 / real bs);
          c = ar_round A 0.955
      in near r (1 / p) \<and>
         \<bar>ar_log2 A r - log 2 r\<bar> \<le> 1 / 2 ^ 40 \<and>
         \<bar>ar_log2 A (2 * real bs) - log 2 (2 * real bs)\<bar> \<le> 1 / 2 ^ 40 \<and>
         near (ar_round A l) l \<and>
         near d (max n 32 / real bs) \<and>
         near c 0.955 \<and>
         near (ar_round A (d / c)) (d / c))"



definition skewed :: arith where
  "skewed = \<lparr>ar_round = (\<lambda>x. x * (1 + 1 / 2 ^ 54)), ar_log2 = (\<lambda>x. log 2 x + 1 / 2 ^ 50)\<rparr>"

section \<open>Scalable Bloom filter\<close>

text \<open>
  Modelled from the spec: the class \<open>PartitionBloomFilter\<close> (partitioned-bloom-filter.mjs) is
  not among the sources. The spec gives its state: the seed and random source of every filter,
  \<open>_size\<close>, \<open>_nbHashes\<close>, a \<open>_loadFactor\<close>, one bit vector per hash function and a
  \<open>_capacity\<close>. Its seed setter is the one of the base class: it stores the seed and reseeds
  the random source, and does not touch the stored bits.
\<close>

record partitioned = base_filter +
  pb_size :: nat
  pb_nbHashes :: nat
  pb_loadFactor :: real
  pb_filter :: "bool list list"
  pb_capacity :: real

text \<open>
  What the scalable filter calls and the sources do not contain: \<open>PartitionBloomFilter.create\<close>,
  \<open>_currentload\<close> and \<open>add\<close> of the partitioned filter, and the external \<open>seedrandom\<close>.
  They are parameters of the model.
\<close>

record externals =
  po_create :: "real \<Rightarrow> real \<Rightarrow> real \<Rightarrow> partitioned"
  po_currentload :: "partitioned \<Rightarrow> real"
  po_add :: "partitioned \<Rightarrow> string \<Rightarrow> partitioned"
  po_seedrandom :: "int \<Rightarrow> nat \<Rightarrow> real"

text \<open>
  Modelled from the spec: the seed setter of the base class, inherited by the partitioned
  filter; it is not among the sources.
\<close>

definition pb_set_seed :: "externals \<Rightarrow> partitioned \<Rightarrow> int \<Rightarrow> partitioned" where
  "pb_set_seed ext p s = p\<lparr>bf_seed := s, bf_rng := po_seedrandom ext s\<rparr>"

record scalable = base_filter +
  sb_initial_size :: real
  sb_error_rate :: real
  sb_ratio :: real
  sb_filters :: "partitioned list"

text \<open>The constructor pushes one partitioned filter and gives it the seed of the new object.\<close>

definition ScalableBloomFilter ::
  "externals \<Rightarrow> base_filter \<Rightarrow> real \<Rightarrow> real \<Rightarrow> real \<Rightarrow> scalable" where
  "ScalableBloomFilter ext super initial_size error_rate ratio =
     \<lparr>bf_seed = bf_seed super, bf_rng = bf_rng super, bf_xxh64 = bf_xxh64 super,
      sb_initial_size = initial_size,
      sb_error_rate = error_rate,
      sb_ratio = ratio,
      sb_filters = [pb_set_seed ext (po_create ext initial_size error_rate ratio) (bf_seed super)]\<rparr>"

text \<open>The seed setter.\<close>

definition sb_set_seed :: "externals \<Rightarrow> scalable \<Rightarrow> int \<Rightarrow> scalable" where
  "sb_set_seed ext f s =
     f\<lparr>bf_seed := s,
       bf_rng := po_seedrandom ext s,
       sb_filters := map (\<lambda>filter. pb_set_seed ext filter s) (sb_filters f)\<rparr>"

text \<open>
  \<open>add\<close>, with the static \<open>_s = 2\<close> and \<open>Math.LN2\<close>. Reading the last filter of an empty list
  gives \<open>undefined\<close>, and the call on it a \<open>TypeError\<close>.
\<close>

definition sb_add :: "externals \<Rightarrow> scalable \<Rightarrow> string \<Rightarrow> error + scalable" where
  "sb_add ext f element =
     (if sb_filters f = [] then Inl TypeError
      else
        (let currentFilter = last (sb_filters f);
             f1 = (if po_currentload ext currentFilter > pb_loadFactor currentFilter
                   then
                     (let newSize = sb_initial_size f * 2 ^ (length (sb_filters f) + 1) * ln 2;
                          newErrorRate = sb_error_rate f * sb_ratio f ^ length (sb_filters f)
                      in f\<lparr>sb_filters := sb_filters f @
                             [pb_set_seed ext (po_create ext newSize newErrorRate (sb_ratio f))
                                (bf_seed f)]\<rparr>)
                   else f)
         in Inr (f1\<lparr>sb_filters := butlast (sb_filters f1) @
                       [po_add ext (last (sb_filters f1)) element]\<rparr>)))"

fun sb_add_all :: "externals \<Rightarrow> scalable \<Rightarrow> string list \<Rightarrow> error + scalable" where
  "sb_add_all ext f [] = Inr f"
| "sb_add_all ext f (x # xs) =
     (case sb_add ext f x of Inl e \<Rightarrow> Inl e | Inr f' \<Rightarrow> sb_add_all ext f' xs)"

text \<open>
  What happens to one partitioned filter after its creation: seed assignments and insertions.
  A filter was created with given arguments if it is \<open>create\<close> of these arguments followed by
  such events.
\<close>

datatype pb_event = SeedSet int | Added string

fun pb_apply :: "externals \<Rightarrow> partitioned \<Rightarrow> pb_event \<Rightarrow> partitioned" where
  "pb_apply ext p (SeedSet s) = pb_set_seed ext p s"
| "pb_apply ext p (Added x) = po_add ext p x"

definition replay :: "externals \<Rightarrow> partitioned \<Rightarrow> pb_event list \<Rightarrow> partitioned" where
  "replay ext p evs = foldl (pb_apply ext) p evs"

text \<open>
  A one-bit stand-in for the partitioned filter in the examples: \<open>create\<close> keeps the target
  size as \<open>_capacity\<close> and the ratio as \<open>_loadFactor\<close>, \<open>add\<close> sets the bit, and the load is the
  bit.
\<close>

definition toy_ext :: externals where
  "toy_ext =
     \<lparr>po_create = (\<lambda>n p r. \<lparr>bf_seed = 0, bf_rng = (\<lambda>i. 0),
                              bf_xxh64 = (\<lambda>s seed. word_of_nat (length s)),
                              pb_size = 1, pb_nbHashes = 1, pb_loadFactor = r,
                              pb_filter = [[False]], pb_capacity = n\<rparr>),
      po_currentload = (\<lambda>q. if pb_filter q = [[True]] then 1 else 0),
      po_add = (\<lambda>q x. q\<lparr>pb_filter := [[True]]\<rparr>),
      po_seedrandom = (\<lambda>s i. 0)\<rparr>"

definition sb_demo :: scalable where
  "sb_demo = ScalableBloomFilter toy_ext demo_base 8 0.01 0.5"

section \<open>The hash string and the fingerprint\<close>

lemma length_toString2: "n < 2 ^ Suc k \<Longrightarrow> length (toString2 n) \<le> Suc k"
proof (induction k arbitrary: n)
  case 0
  then show ?case by (simp add: toString2.simps)
next
  case (Suc k)
  show ?case
  proof (cases "n < 2")
    case True
    then show ?thesis by (simp add: toString2.simps)
  next
    case False
    from Suc.prems have "n div 2 < 2 ^ Suc k" by simp
    then have "length (toString2 (n div 2)) \<le> Suc k" by (rule Suc.IH)
    with False show ?thesis by (subst toString2.simps) simp
  qed
qed

lemma length_hashstr: "length (padStart 64 (CHR ''0'') (toString2 (unat (h :: 64 word)))) = 64"
proof -
  have "unat h < 2 ^ Suc 63" using unsigned_less [of h] by simp
  then have "length (toString2 (unat h)) \<le> Suc 63" by (rule length_toString2)
  then show ?thesis by (simp add: padStart_def)
qed

lemma bits_msb_0: "bits_msb w 0 = replicate w (CHR ''0'')"
  by (induction w) (simp_all add: digit_def replicate_append_same)

lemma length_bits_msb: "length (bits_msb w n) = w"
  by (induction w arbitrary: n) simp_all

lemma padStart_toString2:
  "n < 2 ^ Suc w \<Longrightarrow> padStart (Suc w) (CHR ''0'') (toString2 n) = bits_msb (Suc w) n"
proof (induction w arbitrary: n)
  case 0
  then have "n = 0 \<or> n = 1" by auto
  then show ?case by (auto simp: toString2.simps padStart_def digit_def)
next
  case (Suc w)
  show ?case
  proof (cases "n < 2")
    case True
    then have n: "n = 0 \<or> n = 1" by auto
    then have "n div 2 = 0" by auto
    with n show ?thesis
      by (auto simp: toString2.simps padStart_def digit_def bits_msb_0 replicate_append_same)
  next
    case False
    from Suc.prems have lt: "n div 2 < 2 ^ Suc w" by simp
    have len: "length (toString2 (n div 2)) \<le> Suc w" using lt by (rule length_toString2)
    have "padStart (Suc (Suc w)) (CHR ''0'') (toString2 n)
            = padStart (Suc w) (CHR ''0'') (toString2 (n div 2)) @ [digit (odd n)]"
      using False len by (subst toString2.simps) (auto simp: padStart_def digit_def Suc_diff_le)
    then show ?thesis using Suc.IH [OF lt] by simp
  qed
qed

lemma nth_bits_msb: "i < w \<Longrightarrow> bits_msb w n ! (w - 1 - i) = digit (bit n i)"
proof (induction w arbitrary: n i)
  case 0
  then show ?case by simp
next
  case (Suc w)
  show ?case
  proof (cases i)
    case 0
    then show ?thesis by (simp add: nth_append length_bits_msb bit_0)
  next
    case (Suc j)
    with Suc.prems have "j < w" by simp
    then have "bits_msb w (n div 2) ! (w - 1 - j) = digit (bit (n div 2) j)" by (rule Suc.IH)
    with Suc \<open>j < w\<close> show ?thesis by (simp add: nth_append length_bits_msb bit_Suc)
  qed
qed

lemma hashstr_bits:
  "padStart 64 (CHR ''0'') (toString2 (unat (h :: 64 word))) = bits_msb 64 (unat h)"
proof -
  have "unat h < 2 ^ Suc 63" using unsigned_less [of h] by simp
  then have "padStart (Suc 63) (CHR ''0'') (toString2 (unat h)) = bits_msb (Suc 63) (unat h)"
    by (rule padStart_toString2)
  then show ?thesis by simp
qed

lemma locations_of_Inl:
  "locations_of f x = Inl e \<longleftrightarrow> e = InvalidArgument \<and> 64 < cf_fingerprintLength f"
  by (auto simp: locations_of_def Let_def length_hashstr)

lemma locations_of_Inr_ex: "cf_fingerprintLength f \<le> 64 \<Longrightarrow> \<exists>loc. locations_of f x = Inr loc"
  by (simp add: locations_of_def Let_def length_hashstr)

lemma fingerprint_bits:
  assumes "locations_of f x = Inr loc"
  shows "length (fingerprint loc) = nat (cf_fingerprintLength f)"
    and "i < nat (cf_fingerprintLength f) \<Longrightarrow>
           fingerprint loc ! (nat (cf_fingerprintLength f) - 1 - i) = digit (bit (hash f x) i)"
proof -
  let ?fl = "cf_fingerprintLength f"
  let ?hs = "padStart 64 (CHR ''0'') (toString2 (unat (hash f x)))"
  from assms have le: "?fl \<le> 64" and fp: "fingerprint loc = drop (nat (64 - ?fl)) ?hs"
    by (auto simp: locations_of_def Let_def length_hashstr split: if_splits)
  show "length (fingerprint loc) = nat ?fl" using le by (simp add: fp length_hashstr)
  assume i: "i < nat ?fl"
  with le have idx: "nat (64 - ?fl) + (nat ?fl - 1 - i) = 64 - 1 - i" by linarith
  have i64: "i < 64" using i le by linarith
  have "nat (64 - ?fl) \<le> length ?hs" using i by (simp add: length_hashstr)
  then have "fingerprint loc ! (nat ?fl - 1 - i) = ?hs ! (nat (64 - ?fl) + (nat ?fl - 1 - i))"
    unfolding fp by (rule nth_drop)
  also have "\<dots> = bits_msb 64 (unat (hash f x)) ! (64 - 1 - i)"
    by (simp only: idx hashstr_bits)
  also have "\<dots> = digit (bit (unat (hash f x)) i)"
    using i64 by (rule nth_bits_msb)
  finally show "fingerprint loc ! (nat ?fl - 1 - i) = digit (bit (hash f x) i)"
    by (simp add: bit_unsigned_iff)
qed

section \<open>Bucket indices for a power-of-two size\<close>

lemma index_pow2:
  assumes "k \<le> 32"
  shows "take_bit 32 (m::nat) mod 2 ^ k = take_bit k m"
  using assms by (simp add: take_bit_eq_mod [symmetric] min_def)

lemma locations_pow2:
  assumes "cf_size f = 2 ^ k" "k \<le> 32" "locations_of f x = Inr loc"
  shows "firstIndex loc = Some (take_bit k (unat (hash f x)))"
    and "secondIndex loc =
           Some (take_bit k (unat (hash f x)) XOR take_bit k (unat (hash f (fingerprint loc))))"
  using assms
  by (auto simp: locations_of_def Let_def length_hashstr js_mod_def unsigned_take_bit_eq
      unsigned_xor_eq index_pow2 split: if_splits)

lemma drop_bits_msb: "k \<le> w \<Longrightarrow> drop (w - k) (bits_msb w n) = bits_msb k n"
proof (induction w arbitrary: k n)
  case 0
  then show ?case by simp
next
  case (Suc w)
  show ?case
  proof (cases k)
    case 0
    then show ?thesis by (simp add: length_bits_msb)
  next
    case (Suc k')
    with Suc.prems have "k' \<le> w" by simp
    then have "drop (w - k') (bits_msb w (n div 2)) = bits_msb k' (n div 2)" by (rule Suc.IH)
    with Suc show ?thesis by (simp add: length_bits_msb)
  qed
qed

lemma fingerprint_low_bits:
  assumes "locations_of f x = Inr loc"
  shows "fingerprint loc = bits_msb (nat (cf_fingerprintLength f)) (unat (hash f x))"
proof -
  let ?fl = "cf_fingerprintLength f"
  from assms have le: "?fl \<le> 64"
    and fp: "fingerprint loc = drop (nat (64 - ?fl)) (bits_msb 64 (unat (hash f x)))"
    by (auto simp: locations_of_def Let_def length_hashstr hashstr_bits length_bits_msb split: if_splits)
  show ?thesis
  proof (cases "0 \<le> ?fl")
    case True
    with le have "nat (64 - ?fl) = 64 - nat ?fl" and "nat ?fl \<le> 64" by linarith+
    then show ?thesis using drop_bits_msb [of "nat ?fl" 64] by (simp add: fp)
  next
    case False
    then show ?thesis by (simp add: fp length_bits_msb)
  qed
qed

lemma rollback_throws: "rollback f logs = (Throw e, f') \<Longrightarrow> e = TypeError"
proof (induction f logs rule: rollback.induct)
  case (1 f logs)
  then show ?case
    by (subst (asm) (2) rollback.simps) (auto split: if_splits prod.splits option.splits)
qed

lemma equals_loop_eq:
  assumes "length (cf_filter other) = length (cf_filter this)"
  shows "equals_loop beq this other i res =
           Return (res \<and> list_all2 (\<lambda>a b. beq b a) (drop i (cf_filter this)) (drop i (cf_filter other)))"
  using assms
proof (induction beq this other i res rule: equals_loop.induct)
  case (1 beq this other i res)
  show ?case
  proof (cases "res \<and> i < length (cf_filter this)")
    case False
    then show ?thesis using "1.prems" by (subst equals_loop.simps) auto
  next
    case True
    then have i: "i < length (cf_filter this)" and res: res by simp_all
    have at: "bucketAt other (Some i) = Some (i, cf_filter other ! i)"
      using i "1.prems" by (simp add: bucketAt_def)
    have IH: "equals_loop beq this other (Suc i)
                (if \<not> beq (cf_filter other ! i) (cf_filter this ! i) then False else res) =
              Return ((if \<not> beq (cf_filter other ! i) (cf_filter this ! i) then False else res) \<and>
                list_all2 (\<lambda>a b. beq b a) (drop (Suc i) (cf_filter this)) (drop (Suc i) (cf_filter other)))"
      using "1.IH" [OF True at refl "1.prems"] .
    have d1: "drop i (cf_filter this) = cf_filter this ! i # drop (Suc i) (cf_filter this)"
      using i by (simp add: Cons_nth_drop_Suc)
    have d2: "drop i (cf_filter other) = cf_filter other ! i # drop (Suc i) (cf_filter other)"
      using i "1.prems" by (simp add: Cons_nth_drop_Suc)
    show ?thesis
      using True by (subst equals_loop.simps) (simp add: at IH d1 d2)
  qed
qed

lemma bk_has_iff: "bk_has b e \<longleftrightarrow> e \<in> set (bk_elements b)"
  by (simp add: bk_has_def)

lemma locations_indices:
  assumes "0 < cf_size f" and "locations_of f x = Inr loc"
  shows "\<exists>i1 i2. firstIndex loc = Some i1 \<and> secondIndex loc = Some i2 \<and> i1 < cf_size f \<and> i2 < cf_size f"
  using assms by (auto simp: locations_of_def Let_def js_mod_def split: if_splits)


subsection \<open>Sum of the bucket lengths\<close>

lemma foldl_used: "foldl (\<lambda>acc val. acc + int (bk_length val)) a bs = a + (\<Sum>b\<leftarrow>bs. int (bk_length b))"
  by (induction bs arbitrary: a) simp_all

lemma used_sum: "used f = (\<Sum>b\<leftarrow>cf_filter f. int (bk_length b))"
  by (simp add: used_def foldl_used)

lemma sum_list_update_int:
  "i < length bs \<Longrightarrow>
     (\<Sum>b\<leftarrow>bs[i := c]. int (bk_length b)) = (\<Sum>b\<leftarrow>bs. int (bk_length b)) - int (bk_length (bs ! i)) + int (bk_length c)"
proof (induction bs arbitrary: i)
  case Nil
  then show ?case by simp
next
  case (Cons a bs)
  then show ?case by (cases i) simp_all
qed

lemma used_putBucket:
  "i < length (cf_filter f) \<Longrightarrow>
     used (putBucket f i c) = used f - int (bk_length (cf_filter f ! i)) + int (bk_length c)"
  by (simp add: used_sum putBucket_def sum_list_update_int)

lemma bk_length_set [simp]: "bk_length (bk_set b i e) = bk_length b"
  by (simp add: bk_set_def bk_length_def)

lemma bk_length_add: "isFree b \<Longrightarrow> bk_length (bk_add b e) = bk_length b + 1"
  by (simp add: bk_add_def bk_length_def)

lemma bk_length_remove:
  assumes "bk_has b e"
  shows "int (bk_length (bk_remove b e)) = int (bk_length b) - 1"
proof -
  from assms have "e \<in> set (bk_elements b)" by (simp add: bk_has_def)
  then obtain m where m: "length (bk_elements b) = Suc m"
    using length_pos_if_in_set [of e "bk_elements b"] by (cases "length (bk_elements b)") auto
  with \<open>e \<in> set (bk_elements b)\<close> show ?thesis
    by (simp add: bk_remove_def bk_length_def length_remove1)
qed

lemma bucketAt_Some: "bucketAt f idx = Some (i, b) \<longleftrightarrow> idx = Some i \<and> i < length (cf_filter f) \<and> b = cf_filter f ! i"
  by (auto simp: bucketAt_def split: option.splits)

lemma random_fields [simp]:
  "cf_filter (snd (random f)) = cf_filter f"
  "cf_length (snd (random f)) = cf_length f"
  "cf_size (snd (random f)) = cf_size f"
  "cf_maxKicks (snd (random f)) = cf_maxKicks f"
  "cf_fingerprintLength (snd (random f)) = cf_fingerprintLength f"
  "bf_seed (snd (random f)) = bf_seed f"
  "bf_xxh64 (snd (random f)) = bf_xxh64 f"
  by (simp_all add: random_def)

lemma used_random [simp]: "used (snd (random f)) = used f"
  by (simp add: used_sum)

lemma putBucket_fields [simp]:
  "cf_length (putBucket f i b) = cf_length f"
  "cf_size (putBucket f i b) = cf_size f"
  "cf_maxKicks (putBucket f i b) = cf_maxKicks f"
  "cf_fingerprintLength (putBucket f i b) = cf_fingerprintLength f"
  "bf_seed (putBucket f i b) = bf_seed f"
  "bf_xxh64 (putBucket f i b) = bf_xxh64 f"
  "bf_rng (putBucket f i b) = bf_rng f"
  "length (cf_filter (putBucket f i b)) = length (cf_filter f)"
  by (simp_all add: putBucket_def)

lemma kicks_balance:
  "used (kick_state (kicks n f index fp logs)) - cf_length (kick_state (kicks n f index fp logs))
     = used f - cf_length f"
proof (induction n arbitrary: f index fp logs)
  case 0
  then show ?case by simp
next
  case (Suc n)
  show ?case
  proof (cases "bucketAt f (Some index)")
    case None
    then show ?thesis by simp
  next
    case (Some ib)
    obtain i b where ib: "ib = (i, b)" by (cases ib)
    with Some have i: "i < length (cf_filter f)" and b: "b = cf_filter f ! i"
      by (simp_all add: bucketAt_Some)
    obtain u f1 where r: "random f = (u, f1)" by (cases "random f")
    then have f1: "f1 = snd (random f)" by simp
    define r where "r = randomInt 0 (int (bk_length b) - 1) u"
    define f2 where "f2 = putBucket f1 i (bk_set b r fp)"
    have bal2: "used f2 - cf_length f2 = used f - cf_length f"
      using i b by (simp add: f2_def f1 used_putBucket)
    show ?thesis
    proof (cases "bk_at b r")
      case None
      with Some ib r bal2 show ?thesis by (simp add: r_def [symmetric] f2_def [symmetric])
    next
      case tmp: (Some tmp)
      show ?thesis
      proof (cases "bucketAt f2 (js_mod (take_bit 32 (index XOR unat (hash f2 tmp))) (cf_size f2))")
        case None
        with Some ib r tmp bal2 show ?thesis
          by (simp add: r_def [symmetric] f2_def [symmetric])
      next
        case jb: (Some jb)
        obtain j b' where jb': "jb = (j, b')" by (cases jb)
        with jb have j: "j < length (cf_filter f2)" and b': "b' = cf_filter f2 ! j"
          by (simp_all add: bucketAt_Some)
        show ?thesis
        proof (cases "isFree b'")
          case True
          then have "used (putBucket f2 j (bk_add b' tmp)) = used f2 + 1"
            using j b' by (simp add: used_putBucket bk_length_add)
          with Some ib r tmp jb jb' True bal2 show ?thesis
            by (simp add: r_def [symmetric] f2_def [symmetric] used_sum)
        next
          case False
          with Some ib r tmp jb jb' bal2 Suc.IH [of f2 j tmp "logs @ [(i, r, tmp)]"] show ?thesis
            by (simp add: r_def [symmetric] f2_def [symmetric])
        qed
      qed
    qed
  qed
qed

lemma rollback_balance:
  "used (snd (rollback f logs)) - cf_length (snd (rollback f logs)) = used f - cf_length f"
proof (induction f logs rule: rollback.induct)
  case (1 f logs)
  show ?case
  proof (cases "logs = []")
    case True
    then show ?thesis by (simp add: rollback.simps)
  next
    case False
    obtain i slot old where l: "last logs = (i, slot, old)" by (cases "last logs")
    show ?thesis
    proof (cases "bucketAt f (Some i)")
      case None
      with False l show ?thesis by (subst (1 2) rollback.simps) simp
    next
      case (Some jb)
      obtain j b where jb: "jb = (j, b)" by (cases jb)
      with Some have j: "j < length (cf_filter f)" and b: "b = cf_filter f ! j"
        by (simp_all add: bucketAt_Some)
      have "used (putBucket f j (bk_set b slot old)) - cf_length (putBucket f j (bk_set b slot old))
              = used f - cf_length f"
        using j b by (simp add: used_putBucket)
      with "1.IH" [OF False l [symmetric] refl Some jb [symmetric]] False l Some jb
      show ?thesis by (subst (1 2) rollback.simps) simp
    qed
  qed
qed


lemma used_constructor: "used (CuckooFilter super sz fl bs mk) = 0"
  by (simp add: used_sum CuckooFilter_def Let_def Bucket_def bk_length_def sum_list_replicate)

lemma used_length_update [simp]: "used (f\<lparr>cf_length := n\<rparr>) = used f"
  by (simp add: used_sum)

lemma add_balance:
  "used (snd (add f x throwError destructive)) - cf_length (snd (add f x throwError destructive))
     = used f - cf_length f"
proof (cases "locations_of f x")
  case (Inl e)
  then show ?thesis by (simp add: add_def)
next
  case (Inr loc)
  show ?thesis
  proof (cases "bucketAt f (firstIndex loc)")
    case None
    with Inr show ?thesis by (simp add: add_def)
  next
    case (Some ib1)
    obtain i1 b1 where ib1: "ib1 = (i1, b1)" by (cases ib1)
    with Some have i1: "i1 < length (cf_filter f)" and b1: "b1 = cf_filter f ! i1"
      by (simp_all add: bucketAt_Some)
    show ?thesis
    proof (cases "isFree b1")
      case True
      with Inr Some ib1 i1 b1 show ?thesis
        by (simp add: add_def used_putBucket bk_length_add)
    next
      case nf1: False
      show ?thesis
      proof (cases "bucketAt f (secondIndex loc)")
        case None
        with Inr Some ib1 nf1 show ?thesis by (simp add: add_def)
      next
        case s2: (Some ib2)
        obtain i2 b2 where ib2: "ib2 = (i2, b2)" by (cases ib2)
        with s2 have i2: "i2 < length (cf_filter f)" and b2: "b2 = cf_filter f ! i2"
          by (simp_all add: bucketAt_Some)
        show ?thesis
        proof (cases "isFree b2")
          case True
          with Inr Some ib1 nf1 s2 ib2 i2 b2 show ?thesis
            by (simp add: add_def used_putBucket bk_length_add)
        next
          case nf2: False
          obtain u f1 where r: "random f = (u, f1)" by (cases "random f")
          then have f1: "f1 = snd (random f)" by simp
          define index where "index = (if u < 0.5 then i1 else i2)"
          define K where "K = kicks (cf_maxKicks f1) f1 index (fingerprint loc) []"
          have K: "used (kick_state K) - cf_length (kick_state K) = used f - cf_length f"
            unfolding K_def kicks_balance by (simp add: f1)
          have unf: "add f x throwError destructive =
            (case K of
               Inserted f' \<Rightarrow> (Return True, f')
             | Crashed f' \<Rightarrow> (Throw TypeError, f')
             | Exhausted f' logs \<Rightarrow>
                 (case (if \<not> destructive then rollback f' logs else (Return (), f')) of
                    (Throw e, f'') \<Rightarrow> (Throw e, f'')
                  | (Return _, f'') \<Rightarrow>
                      (if throwError then (Throw FilterFull, f'') else (Return False, f''))))"
            using Inr Some ib1 nf1 s2 ib2 nf2 r
            by (simp add: add_def K_def index_def)
          show ?thesis
          proof (cases K)
            case (Inserted f')
            with K unf show ?thesis by simp
          next
            case (Crashed f')
            with K unf show ?thesis by simp
          next
            case (Exhausted f' logs)
            show ?thesis
            proof (cases destructive)
              case True
              with K unf Exhausted show ?thesis by simp
            next
              case False
              have "snd (add f x throwError destructive) = snd (rollback f' logs)"
                using unf Exhausted False
                by (cases "rollback f' logs") (auto split: outcome.splits)
              with K Exhausted rollback_balance [of f' logs] show ?thesis by simp
            qed
          qed
        qed
      qed
    qed
  qed
qed

lemma remove_balance:
  "used (snd (remove f x)) - cf_length (snd (remove f x)) = used f - cf_length f"
  by (auto simp: remove_def bucketAt_Some used_putBucket bk_length_remove
      split: sum.splits option.splits prod.splits)


subsection \<open>Rollback\<close>

lemma rollback_Nil [simp]: "rollback f [] = (Return (), f)"
  by (simp add: rollback.simps)

lemma rollback_snoc:
  "rollback f (logs @ [(i, slot, old)]) =
     (case bucketAt f (Some i) of
        None \<Rightarrow> (Throw TypeError, f)
      | Some (j, b) \<Rightarrow> rollback (putBucket f j (bk_set b slot old)) logs)"
  by (subst rollback.simps) (simp split: option.splits)

text \<open>The rollback changes nothing but the buckets, and reads nothing but the buckets.\<close>

lemma rollback_frame: "\<exists>bs. snd (rollback f logs) = f\<lparr>cf_filter := bs\<rparr>"
proof (induction logs arbitrary: f rule: rev_induct)
  case Nil
  have "f = f\<lparr>cf_filter := cf_filter f\<rparr>" by simp
  then show ?case by (auto intro: exI [of _ "cf_filter f"])
next
  case (snoc e logs)
  obtain i slot old where e: "e = (i, slot, old)" by (cases e)
  show ?case
  proof (cases "bucketAt f (Some i)")
    case None
    have "f = f\<lparr>cf_filter := cf_filter f\<rparr>" by simp
    with None e show ?thesis by (auto simp: rollback_snoc intro: exI [of _ "cf_filter f"])
  next
    case (Some jb)
    obtain j b where jb: "jb = (j, b)" by (cases jb)
    from snoc [of "putBucket f j (bk_set b slot old)"] obtain bs
      where "snd (rollback (putBucket f j (bk_set b slot old)) logs)
               = (putBucket f j (bk_set b slot old))\<lparr>cf_filter := bs\<rparr>" by blast
    with Some jb e show ?thesis by (auto simp: rollback_snoc putBucket_def)
  qed
qed

lemma rollback_cong:
  "cf_filter f = cf_filter g \<Longrightarrow>
     fst (rollback f logs) = fst (rollback g logs) \<and>
     cf_filter (snd (rollback f logs)) = cf_filter (snd (rollback g logs))"
proof (induction logs arbitrary: f g rule: rev_induct)
  case Nil
  then show ?case by simp
next
  case (snoc e logs)
  obtain i slot old where e: "e = (i, slot, old)" by (cases e)
  show ?case
  proof (cases "i < length (cf_filter f)")
    case False
    with snoc.prems e show ?thesis by (simp add: rollback_snoc bucketAt_def)
  next
    case True
    let ?b = "bk_set (cf_filter f ! i) slot old"
    have "cf_filter (putBucket f i ?b) = cf_filter (putBucket g i ?b)"
      using snoc.prems by (simp add: putBucket_def)
    from snoc.IH [OF this] True snoc.prems e show ?thesis
      by (simp add: rollback_snoc bucketAt_def)
  qed
qed

lemma bk_set_undo: "bk_at b r = Some tmp \<Longrightarrow> bk_set (bk_set b r fp) r tmp = b"
  by (auto simp: bk_at_def bk_set_def bk_length_def split: if_splits)

text \<open>
  Invariant of the eviction loop: undoing the log in the current state gives the buckets that
  undoing the log gave when the loop was entered, and the counter is untouched.
\<close>

lemma kicks_Exhausted:
  "kicks n f index fp logs = Exhausted f' logs' \<Longrightarrow>
     fst (rollback f' logs') = fst (rollback f logs) \<and>
     cf_filter (snd (rollback f' logs')) = cf_filter (snd (rollback f logs)) \<and>
     cf_length f' = cf_length f"
proof (induction n arbitrary: f index fp logs)
  case 0
  then show ?case by simp
next
  case (Suc n)
  from Suc.prems obtain i b where ib: "bucketAt f (Some index) = Some (i, b)"
    by (cases "bucketAt f (Some index)") auto
  then have i: "i < length (cf_filter f)" and b: "b = cf_filter f ! i"
    by (simp_all add: bucketAt_Some)
  obtain u f1 where r: "random f = (u, f1)" by (cases "random f")
  then have f1: "f1 = snd (random f)" by simp
  define r where "r = randomInt 0 (int (bk_length b) - 1) u"
  define f2 where "f2 = putBucket f1 i (bk_set b r fp)"
  from Suc.prems ib r obtain tmp where tmp: "bk_at b r = Some tmp"
    by (cases "bk_at b r") (auto simp: r_def [symmetric])
  from Suc.prems ib r tmp obtain j b'
    where jb: "bucketAt f2 (js_mod (take_bit 32 (index XOR unat (hash f2 tmp))) (cf_size f2)) = Some (j, b')"
    by (cases "bucketAt f2 (js_mod (take_bit 32 (index XOR unat (hash f2 tmp))) (cf_size f2))")
       (auto simp: r_def [symmetric] f2_def [symmetric])
  from Suc.prems ib r tmp jb have nf: "\<not> isFree b'"
    and rec: "kicks n f2 j tmp (logs @ [(i, r, tmp)]) = Exhausted f' logs'"
    by (auto simp: r_def [symmetric] f2_def [symmetric] split: if_splits)
  note IH = Suc.IH [OF rec]
  have at2: "bucketAt f2 (Some i) = Some (i, bk_set b r fp)"
    using i by (simp add: bucketAt_def f2_def f1 putBucket_def)
  have "cf_filter (putBucket f2 i (bk_set (bk_set b r fp) r tmp)) = cf_filter f"
    using i b tmp by (simp add: bk_set_undo f2_def f1 putBucket_def)
  from rollback_cong [OF this, of logs] at2
  have "fst (rollback f2 (logs @ [(i, r, tmp)])) = fst (rollback f logs) \<and>
        cf_filter (snd (rollback f2 (logs @ [(i, r, tmp)]))) = cf_filter (snd (rollback f logs))"
    by (simp add: rollback_snoc)
  moreover have "cf_length f2 = cf_length f" by (simp add: f2_def f1)
  ultimately show ?case using IH by simp
qed


subsection \<open>What the calls leave alone\<close>

lemma same_setup_refl [simp]: "same_setup f f"
  by (simp add: same_setup_def)




lemma same_setup_length [simp]: "same_setup f (g\<lparr>cf_length := n\<rparr>) = same_setup f g"
  by (simp add: same_setup_def)









subsection \<open>Where a fingerprint is stored\<close>

lemma inBucket_random [simp]: "inBucket (snd (random f)) c t = inBucket f c t"
  by (simp add: inBucket_def)

lemma inBucket_length_update [simp]: "inBucket (f\<lparr>cf_length := n\<rparr>) c t = inBucket f c t"
  by (simp add: inBucket_def)


















subsection \<open>Rounding up to a power of two\<close>







subsection \<open>Rounding errors in create\<close>

text \<open>
  A number near a positive number is positive and lies between the two bounds; its logarithm
  is within \<open>2^-51\<close> of the logarithm of that number.
\<close>

lemma near_bounds:
  assumes "0 < x" and "near y x"
  shows "x * (1 - 1 / 2 ^ 53) \<le> y" and "y \<le> x * (1 + 1 / 2 ^ 53)" and "0 < y"
proof -
  from assms have a: "\<bar>y - x\<bar> \<le> x / 2 ^ 53" by (simp add: near_def)
  then have "x - y \<le> x / 2 ^ 53" and "y - x \<le> x / 2 ^ 53" by linarith+
  then show l: "x * (1 - 1 / 2 ^ 53) \<le> y" and "y \<le> x * (1 + 1 / 2 ^ 53)"
    by (simp_all add: algebra_simps)
  have "0 < x * (1 - 1 / 2 ^ 53)" using assms(1) by simp
  with l show "0 < y" by linarith
qed

lemma ln_2_ge_half: "1 / 2 \<le> ln (2::real)"
proof -
  have "ln (1 / 2 :: real) \<le> 1 / 2 - 1" by (rule ln_le_minus_one) simp
  then show ?thesis by (simp add: ln_div)
qed

lemma log2_near:
  assumes "0 < x" and "near y x"
  shows "\<bar>log 2 y - log 2 x\<bar> \<le> 1 / 2 ^ 51"
proof -
  define t where "t = (y - x) / x"
  from assms have y: "0 < y" by (rule near_bounds)
  from assms have "\<bar>y - x\<bar> \<le> x / 2 ^ 53" by (simp add: near_def)
  then have "\<bar>y - x\<bar> / x \<le> (x / 2 ^ 53) / x" using assms(1) by (intro divide_right_mono) simp_all
  then have t: "\<bar>t\<bar> \<le> 1 / 2 ^ 53" using assms(1) by (simp add: t_def)
  then have t2: "\<bar>t\<bar> \<le> 1 / 2" by simp
  have yx: "y / x = 1 + t" using assms(1) by (simp add: t_def field_simps)
  have "t\<^sup>2 = \<bar>t\<bar> * \<bar>t\<bar>" by (simp add: power2_eq_square)
  also have "\<dots> \<le> \<bar>t\<bar> * (1 / 2)" using t2 by (intro mult_left_mono) simp_all
  finally have sq: "2 * t\<^sup>2 \<le> \<bar>t\<bar>" by simp
  from abs_ln_one_plus_x_minus_x_bound [OF t2] sq have "\<bar>ln (1 + t)\<bar> \<le> 2 * \<bar>t\<bar>" by linarith
  with t have l: "\<bar>ln (1 + t)\<bar> \<le> 1 / 2 ^ 52" by simp
  have "log 2 y - log 2 x = log 2 (y / x)" using assms(1) y by (simp add: log_divide_pos)
  also have "\<dots> = ln (1 + t) / ln 2" by (simp add: yx log_def)
  finally have "\<bar>log 2 y - log 2 x\<bar> = \<bar>ln (1 + t)\<bar> / ln 2" by simp
  also have "\<dots> \<le> (1 / 2 ^ 52) / (1 / 2)"
    using l ln_2_ge_half by (intro frac_le) simp_all
  finally show ?thesis by simp
qed












lemma near_skewed: "near (x * (1 + 1 / 2 ^ 54)) x"
proof -
  have "x * (1 + 1 / 2 ^ 54) - x = x / 2 ^ 54" by (simp add: algebra_simps)
  moreover have "\<bar>x / 2 ^ 54\<bar> \<le> \<bar>x\<bar> / 2 ^ 53" by simp
  ultimately show ?thesis by (simp only: near_def)
qed

lemma skewed_round: "near (ar_round skewed x) x"
  by (simp only: skewed_def arith.select_convs near_skewed)

lemma skewed_log2: "\<bar>ar_log2 skewed x - log 2 x\<bar> \<le> 1 / 2 ^ 40"
  by (simp add: skewed_def)

lemma accurate_skewed: "accurate skewed n p bs"
  unfolding accurate_def Let_def by (intro conjI skewed_round skewed_log2)

text \<open>
  Why the exact values have to be clear of the integers. For an error rate of \<open>61/64\<close> and
  buckets of 61 the exact sum of the logarithms is 7; in the arithmetic \<open>skewed\<close>, which is
  accurate, the computed sum is above 7 and the fingerprint length is 8.
\<close>

lemma fingerprint_margin_needed:
  "accurate skewed 32 (61 / 64) 61 \<and>
   \<lceil>log 2 (1 / (61 / 64)) + log 2 (2 * real 61)\<rceil> = 7 \<and>
   cf_fingerprintLength (create skewed super 32 (61 / 64) 61 mk) = 8"
proof -
  define r :: real where "r = 64 / 61 * (1 + 1 / 2 ^ 54)"
  define l where "l = log 2 r + 1 / 2 ^ 50 + (log 2 122 + 1 / 2 ^ 50)"
  have "log 2 (64 / 61) + log 2 122 = log 2 (64 / 61 * 122)"
    by (rule log_mult_pos [symmetric]) simp_all
  also have "\<dots> = log 2 (2 ^ 7)" by simp
  also have "\<dots> = 7" by (simp only: log_pow_cancel)
  finally have s: "log 2 (64 / 61) + log 2 122 = 7" .
  have "near r (64 / 61)" unfolding r_def by (rule near_skewed)
  from log2_near [OF _ this] have "\<bar>log 2 r - log 2 (64 / 61)\<bar> \<le> 1 / 2 ^ 51" by simp
  moreover have "log 2 (64 / 61) \<le> log 2 r"
    by (subst log_le_cancel_iff) (simp_all add: r_def)
  ultimately have l: "7 < l" "l \<le> 15 / 2" using s unfolding l_def by simp_all
  then have "l * (1 + 1 / 2 ^ 54) \<le> 15 / 2 * (1 + 1 / 2 ^ 54)"
    by (intro mult_right_mono) simp_all
  moreover have "l \<le> l * (1 + 1 / 2 ^ 54)" using l by (simp add: algebra_simps)
  ultimately have "\<lceil>l * (1 + 1 / 2 ^ 54)\<rceil> = 8" using l by (intro ceiling_unique) simp_all
  then have "cf_fingerprintLength (create skewed super 32 (61 / 64) 61 mk) = 8"
    by (simp add: create_def computeFingerpintLength_def skewed_def Let_def CuckooFilter_def
        l_def r_def)
  moreover have "\<lceil>log 2 (1 / (61 / 64)) + log 2 (2 * real 61)\<rceil> = 7"
    using s by simp
  ultimately show ?thesis using accurate_skewed by blast
qed


subsection \<open>Scalable filter: how each inner filter was created\<close>

lemma replay_snoc: "replay ext p (evs @ [e]) = pb_apply ext (replay ext p evs) e"
  by (simp add: replay_def)

lemma replay_Nil [simp]: "replay ext p [] = p"
  by (simp add: replay_def)

text \<open>
  The invariant: the first filter comes from \<open>create\<close> with the constructor's arguments, the
  filter at a later position \<open>j\<close> from \<open>create\<close> with size \<open>initial_size * 2^(j+1) * ln 2\<close> and
  error rate \<open>error_rate * ratio^j\<close>.
\<close>

lemma sb_add_invariant:
  assumes ne: "sb_filters f \<noteq> []"
    and first: "\<exists>evs. sb_filters f ! 0 = replay ext (po_create ext n p r) evs"
    and later: "\<forall>j. 1 \<le> j \<and> j < length (sb_filters f) \<longrightarrow>
             (\<exists>evs. sb_filters f ! j =
                replay ext (po_create ext (n * 2 ^ (j + 1) * ln 2) (p * r ^ j) r) evs)"
    and par: "sb_initial_size f = n" "sb_error_rate f = p" "sb_ratio f = r"
  shows "\<exists>f'. sb_add ext f x = Inr f' \<and> sb_filters f' \<noteq> [] \<and>
           length (sb_filters f) \<le> length (sb_filters f') \<and>
           (\<exists>evs. sb_filters f' ! 0 = replay ext (po_create ext n p r) evs) \<and>
           (\<forall>j. 1 \<le> j \<and> j < length (sb_filters f') \<longrightarrow>
             (\<exists>evs. sb_filters f' ! j =
                replay ext (po_create ext (n * 2 ^ (j + 1) * ln 2) (p * r ^ j) r) evs)) \<and>
           sb_initial_size f' = n \<and> sb_error_rate f' = p \<and> sb_ratio f' = r"
proof -
  let ?P = "\<lambda>j q. \<exists>evs. q = replay ext
                (if j = 0 then po_create ext n p r
                 else po_create ext (n * 2 ^ (j + 1) * ln 2) (p * r ^ j) r) evs"
  have all: "\<forall>j < length (sb_filters f). ?P j (sb_filters f ! j)"
    using first later by (auto split: if_splits)
  define new where "new = pb_set_seed ext
     (po_create ext (n * 2 ^ (length (sb_filters f) + 1) * ln 2) (p * r ^ length (sb_filters f)) r)
     (bf_seed f)"
  have Pnew: "?P (length (sb_filters f)) new"
  proof -
    have "new = replay ext
       (po_create ext (n * 2 ^ (length (sb_filters f) + 1) * ln 2) (p * r ^ length (sb_filters f)) r)
       [SeedSet (bf_seed f)]"
      by (simp add: new_def replay_def)
    with ne show ?thesis by auto
  qed
  define grow where "grow = (po_currentload ext (last (sb_filters f)) > pb_loadFactor (last (sb_filters f)))"
  define fs1 where "fs1 = (if grow then sb_filters f @ [new] else sb_filters f)"
  have ne1: "fs1 \<noteq> []" using ne by (simp add: fs1_def)
  have all1: "\<forall>j < length fs1. ?P j (fs1 ! j)"
  proof (intro allI impI)
    fix j assume j: "j < length fs1"
    show "?P j (fs1 ! j)"
    proof (cases "j < length (sb_filters f)")
      case True
      with all have "?P j (sb_filters f ! j)" by blast
      moreover have "fs1 ! j = sb_filters f ! j" using True by (simp add: fs1_def nth_append)
      ultimately show ?thesis by simp
    next
      case False
      with j have g: "grow" and jl: "j = length (sb_filters f)"
        by (auto simp: fs1_def split: if_splits)
      then have e: "fs1 ! j = new" by (simp add: fs1_def)
      show ?thesis unfolding e unfolding jl by (rule Pnew)
    qed
  qed
  define fs2 where "fs2 = butlast fs1 @ [po_add ext (last fs1) x]"
  have len2: "length fs2 = length fs1" using ne1 by (simp add: fs2_def)
  have all2: "\<forall>j < length fs2. ?P j (fs2 ! j)"
  proof (intro allI impI)
    fix j assume j: "j < length fs2"
    show "?P j (fs2 ! j)"
    proof (cases "j < length fs1 - 1")
      case True
      then have "fs2 ! j = fs1 ! j" by (simp add: fs2_def nth_append nth_butlast)
      with all1 j len2 show ?thesis by simp
    next
      case False
      with j len2 have jl: "j = length fs1 - 1" by simp
      then have "fs2 ! j = po_add ext (last fs1) x" by (simp add: fs2_def nth_append)
      moreover have "last fs1 = fs1 ! j" using ne1 jl by (simp add: last_conv_nth)
      moreover from all1 j len2 obtain evs where "fs1 ! j = replay ext
                (if j = 0 then po_create ext n p r
                 else po_create ext (n * 2 ^ (j + 1) * ln 2) (p * r ^ j) r) evs" by auto
      ultimately have "fs2 ! j = replay ext
                (if j = 0 then po_create ext n p r
                 else po_create ext (n * 2 ^ (j + 1) * ln 2) (p * r ^ j) r) (evs @ [Added x])"
        by (simp add: replay_snoc)
      then show ?thesis by blast
    qed
  qed
  define f' where "f' = (if grow then f\<lparr>sb_filters := sb_filters f @ [new]\<rparr> else f)\<lparr>sb_filters := fs2\<rparr>"
  have add: "sb_add ext f x = Inr f'"
    using ne par
    by (simp add: sb_add_def Let_def f'_def fs2_def fs1_def grow_def new_def)
  have fs: "sb_filters f' = fs2" by (simp add: f'_def)
  have "length (sb_filters f) \<le> length fs2" by (simp add: len2 fs1_def)
  moreover have "fs2 \<noteq> []" using ne1 len2 by auto
  moreover have "?P 0 (fs2 ! 0)" using all2 \<open>fs2 \<noteq> []\<close> by blast
  moreover have "\<forall>j. 1 \<le> j \<and> j < length fs2 \<longrightarrow>
             (\<exists>evs. fs2 ! j =
                replay ext (po_create ext (n * 2 ^ (j + 1) * ln 2) (p * r ^ j) r) evs)"
  proof (intro allI impI)
    fix j assume j: "1 \<le> j \<and> j < length fs2"
    with all2 have "?P j (fs2 ! j)" by blast
    with j show "\<exists>evs. fs2 ! j =
                replay ext (po_create ext (n * 2 ^ (j + 1) * ln 2) (p * r ^ j) r) evs" by simp
  qed
  moreover have "sb_initial_size f' = n" "sb_error_rate f' = p" "sb_ratio f' = r"
    using par by (simp_all add: f'_def)
  ultimately show ?thesis using add fs by simp
qed


lemma ln2_not_half: "ln (2::real) \<noteq> 1 / 2"
proof
  assume "ln (2::real) = 1 / 2"
  then have "exp (1 / 2 :: real) = 2" by (metis exp_ln zero_less_numeral)
  moreover have "exp (1 / 2 + 1 / 2 :: real) = exp (1 / 2) * exp (1 / 2)" by (rule exp_add)
  ultimately have "exp (1::real) = 4" by simp
  with exp_le show False by simp
qed

lemma sb_demo_filters:
  "sb_filters sb_demo = [pb_set_seed toy_ext (po_create toy_ext 8 0.01 0.5) 0]"
  by (simp add: sb_demo_def ScalableBloomFilter_def demo_base_def)

lemma sb_demo_two_adds:
  "case sb_add_all toy_ext sb_demo [''a'', ''b''] of
     Inl e \<Rightarrow> False | Inr f \<Rightarrow> length (sb_filters f) = 2"
  by (simp add: sb_demo_def ScalableBloomFilter_def sb_add_def toy_ext_def pb_set_seed_def Let_def)


section \<open>The example filters, evaluated\<close>

lemma replicate_num: "replicate (numeral k) x = x # replicate (pred_numeral k) x"
  by (simp add: numeral_eq_Suc)

lemma getNearestPow2_1: "getNearestPow2 1 = 1"
  by (simp add: getNearestPow2_def pow2_from.simps)

lemma getNearestPow2_4: "getNearestPow2 4 = 4"
  by (simp add: getNearestPow2_def pow2_from.simps)

lemma toString2_1: "toString2 (Suc 0) = ''1''"
  by (simp add: toString2.simps)

lemma toString2_2: "toString2 2 = ''10''"
  by (simp add: toString2.simps)

lemma tiny_eq:
  "tiny = \<lparr>bf_seed = 0, bf_rng = (\<lambda>n. 0), bf_xxh64 = (\<lambda>s seed. word_of_nat (length s)),
     cf_filter = [\<lparr>bk_size = 1, bk_elements = []\<rparr>], cf_size = 1, cf_bucketSize = 1,
     cf_fingerprintLength = 8, cf_length = 0, cf_maxKicks = 1\<rparr>"
  by (simp add: tiny_def CuckooFilter_def demo_base_def getNearestPow2_1 Bucket_def)

lemma tiny_locations_a:
  "locations_of tiny ''a'' =
     Inr \<lparr>fingerprint = ''00000001'', firstIndex = Some 0, secondIndex = Some 0\<rparr>"
  by (simp add: tiny_eq locations_of_def hash_def padStart_def toString2_1 js_mod_def Let_def
      replicate_num)

lemma tiny_a_eq:
  "tiny_a = \<lparr>bf_seed = 0, bf_rng = (\<lambda>n. 0), bf_xxh64 = (\<lambda>s seed. word_of_nat (length s)),
     cf_filter = [\<lparr>bk_size = 1, bk_elements = [''00000001'']\<rparr>], cf_size = 1, cf_bucketSize = 1,
     cf_fingerprintLength = 8, cf_length = 1, cf_maxKicks = 1\<rparr>"
  unfolding tiny_a_def add_def tiny_locations_a
  by (simp add: tiny_eq bucketAt_def isFree_def bk_length_def putBucket_def bk_add_def)

lemma tiny_a_locations_a:
  "locations_of tiny_a ''a'' =
     Inr \<lparr>fingerprint = ''00000001'', firstIndex = Some 0, secondIndex = Some 0\<rparr>"
  by (simp add: tiny_a_eq locations_of_def hash_def padStart_def toString2_1 js_mod_def Let_def
      replicate_num)

lemma tiny_a_locations_bb:
  "locations_of tiny_a ''bb'' =
     Inr \<lparr>fingerprint = ''00000010'', firstIndex = Some 0, secondIndex = Some 0\<rparr>"
  by (simp add: tiny_a_eq locations_of_def hash_def padStart_def toString2_2 js_mod_def Let_def
      replicate_num)


lemma tiny_a_add_bb_rollback: "add tiny_a ''bb'' False False = (Return False, tiny_a)"
  unfolding add_def tiny_a_locations_bb
  by (simp add: tiny_a_eq bucketAt_def isFree_def bk_length_def putBucket_def bk_add_def random_def
      randomInt_def bk_at_def bk_set_def js_mod_def hash_def rollback.simps)

lemma small_eq:
  "small = \<lparr>bf_seed = 0, bf_rng = (\<lambda>n. 0), bf_xxh64 = (\<lambda>s seed. word_of_nat (length s)),
     cf_filter = replicate 4 \<lparr>bk_size = 2, bk_elements = []\<rparr>, cf_size = 4, cf_bucketSize = 2,
     cf_fingerprintLength = 7, cf_length = 0, cf_maxKicks = 500\<rparr>"
  by (simp add: small_def CuckooFilter_def demo_base_def getNearestPow2_4 Bucket_def)

lemma small_locations_a:
  "locations_of small ''a'' =
     Inr \<lparr>fingerprint = ''0000001'', firstIndex = Some 1, secondIndex = Some 2\<rparr>"
  by (simp add: small_eq locations_of_def hash_def padStart_def toString2_1 js_mod_def Let_def
      replicate_num)






text \<open>The filter with fingerprints of 72 bits and the filter without buckets.\<close>

lemma getNearestPow2_2_32: "getNearestPow2 4294967296 = 4294967296"
  by (simp add: getNearestPow2_def pow2_from.simps)

lemma wide_eq:
  "wide = \<lparr>bf_seed = 0, bf_rng = (\<lambda>n. 0), bf_xxh64 = (\<lambda>s seed. word_of_nat (length s)),
     cf_filter = replicate 4 \<lparr>bk_size = 2, bk_elements = []\<rparr>, cf_size = 4, cf_bucketSize = 2,
     cf_fingerprintLength = 72, cf_length = 0, cf_maxKicks = 500\<rparr>"
  by (simp add: wide_def CuckooFilter_def demo_base_def getNearestPow2_4 Bucket_def)

lemma hollow_eq:
  "hollow = \<lparr>bf_seed = 0, bf_rng = (\<lambda>n. 0), bf_xxh64 = (\<lambda>s seed. word_of_nat (length s)),
     cf_filter = [], cf_size = 0, cf_bucketSize = 1,
     cf_fingerprintLength = 8, cf_length = 0, cf_maxKicks = 1\<rparr>"
  by (simp add: hollow_def CuckooFilter_def demo_base_def getNearestPow2_2_32 Bucket_def)

lemma wide_locations_a: "locations_of wide ''a'' = Inl InvalidArgument"
  by (simp add: wide_eq locations_of_def hash_def padStart_def toString2_1 Let_def
      replicate_num)

lemma hollow_locations_a:
  "locations_of hollow ''a'' =
     Inr \<lparr>fingerprint = ''00000001'', firstIndex = None, secondIndex = None\<rparr>"
  by (simp add: hollow_eq locations_of_def hash_def padStart_def toString2_1 js_mod_def Let_def
      replicate_num)


section \<open>The claims\<close>

subsection \<open>C1: a failed non-destructive add restores the filter\<close>

text \<open>
  Claim C1. If \<open>add\<close> with \<open>destructive = false\<close> does not succeed, that is, it returns false
  or throws \<open>FilterFull\<close>, then every bucket and the counter \<open>_length\<close> are what they were
  before the call: the undo log written by the eviction loop is replayed from its end and
  every written slot gets its previous fingerprint back.
\<close>

theorem add_failure_rolls_back:
  assumes "add f x throwError False = (r, f')"
    and "r = Return False \<or> r = Throw FilterFull"
  shows "cf_filter f' = cf_filter f \<and> cf_length f' = cf_length f"
proof -
  from assms obtain loc where loc: "locations_of f x = Inr loc"
    by (cases "locations_of f x") (auto simp: add_def locations_of_Inl)
  from assms loc obtain i1 b1 where ib1: "bucketAt f (firstIndex loc) = Some (i1, b1)"
    by (cases "bucketAt f (firstIndex loc)") (auto simp: add_def)
  from assms loc ib1 have nf1: "\<not> isFree b1"
    by (auto simp: add_def split: if_splits)
  from assms loc ib1 nf1 obtain i2 b2 where ib2: "bucketAt f (secondIndex loc) = Some (i2, b2)"
    by (cases "bucketAt f (secondIndex loc)") (auto simp: add_def)
  from assms loc ib1 nf1 ib2 have nf2: "\<not> isFree b2"
    by (auto simp: add_def split: if_splits)
  obtain u f1 where rnd: "random f = (u, f1)" by (cases "random f")
  then have f1: "f1 = snd (random f)" by simp
  define index where "index = (if u < 0.5 then i1 else i2)"
  define K where "K = kicks (cf_maxKicks f1) f1 index (fingerprint loc) []"
  have unf: "add f x throwError False =
    (case K of
       Inserted g \<Rightarrow> (Return True, g)
     | Crashed g \<Rightarrow> (Throw TypeError, g)
     | Exhausted g logs \<Rightarrow>
         (case rollback g logs of
            (Throw e, g') \<Rightarrow> (Throw e, g')
          | (Return _, g') \<Rightarrow> (if throwError then (Throw FilterFull, g') else (Return False, g'))))"
    using loc ib1 nf1 ib2 nf2 rnd
    by (simp add: add_def K_def index_def split: kick_result.splits)
  from assms unf obtain g logs where K: "K = Exhausted g logs"
    by (cases K) auto
  from kicks_Exhausted [OF K [unfolded K_def]]
  have rb: "cf_filter (snd (rollback g logs)) = cf_filter f" and len: "cf_length g = cf_length f"
    by (simp_all add: f1)
  from assms unf K have f': "f' = snd (rollback g logs)"
    by (cases "rollback g logs") (auto split: outcome.splits if_splits dest: rollback_throws)
  from rollback_frame [of g logs] obtain bs where "snd (rollback g logs) = g\<lparr>cf_filter := bs\<rparr>"
    by blast
  then have "cf_length (snd (rollback g logs)) = cf_length g" by simp
  with rb len f' show ?thesis by simp
qed

theorem add_failure_rolls_back_witness:
  "fst (add tiny_a ''bb'' False False) = Return False \<and>
   cf_filter (snd (add tiny_a ''bb'' False False)) = cf_filter tiny_a \<and>
   cf_length (snd (add tiny_a ''bb'' False False)) = cf_length tiny_a"
proof -
  have h: "add tiny_a ''bb'' False False = (Return False, snd (add tiny_a ''bb'' False False))"
    by (simp add: tiny_a_add_bb_rollback)
  have "Return False = Return False \<or> Return False = (Throw FilterFull :: bool outcome)" by simp
  from add_failure_rolls_back [OF h this] show ?thesis
    by (simp add: tiny_a_add_bb_rollback)
qed

subsection \<open>C2: no false negatives\<close>





subsection \<open>C3: the second index from the first index and the fingerprint\<close>

text \<open>
  Claim C3. For a filter whose \<open>_size\<close> is a power of two (at most \<open>2^32\<close>, as the constructor
  leaves it), the two indices computed by \<open>_locations\<close> satisfy
  \<open>secondIndex = (firstIndex xor (hash(fingerprint) mod _size)) mod _size\<close>, and the
  fingerprint is the string of the low \<open>fingerprintLength\<close> bits of the element's hash.
\<close>

theorem second_index_partial_key:
  assumes "cf_size f = 2 ^ k" and "k \<le> 32" and "locations_of f x = Inr loc"
  shows "firstIndex loc \<noteq> None \<and>
         secondIndex loc =
           map_option (\<lambda>a. (a XOR (unat (hash f (fingerprint loc)) mod cf_size f)) mod cf_size f)
             (firstIndex loc) \<and>
         fingerprint loc = bits_msb (nat (cf_fingerprintLength f)) (unat (hash f x))"
proof -
  let ?a = "take_bit k (unat (hash f x))"
  let ?m = "take_bit k (unat (hash f (fingerprint loc)))"
  have first: "firstIndex loc = Some ?a" and second: "secondIndex loc = Some (?a XOR ?m)"
    using assms by (rule locations_pow2)+
  have "take_bit k (?a XOR ?m) = ?a XOR ?m" by (simp add: take_bit_xor)
  then have "(?a XOR (unat (hash f (fingerprint loc)) mod 2 ^ k)) mod 2 ^ k = ?a XOR ?m"
    by (simp add: take_bit_eq_mod)
  with first second assms(1) fingerprint_low_bits [OF assms(3)] show ?thesis by simp
qed

theorem second_index_partial_key_witness:
  "cf_size small = 2 ^ 2 \<and> (2::nat) \<le> 32 \<and>
   locations_of small ''a'' =
     Inr \<lparr>fingerprint = ''0000001'', firstIndex = Some 1, secondIndex = Some 2\<rparr> \<and>
   Some (2::nat) = map_option (\<lambda>a. (a XOR (unat (hash small ''0000001'') mod cf_size small)) mod cf_size small)
                     (Some 1)"
proof -
  have h1: "cf_size small = 2 ^ 2" by (simp add: small_eq)
  have h2: "(2::nat) \<le> 32" by simp
  note t = second_index_partial_key [OF h1 h2 small_locations_a]
  from t [THEN conjunct2, THEN conjunct1]
  have "Some (2::nat) = map_option (\<lambda>a. (a XOR (unat (hash small ''0000001'') mod cf_size small)) mod cf_size small)
                     (Some 1)" by simp
  with h1 h2 small_locations_a show ?thesis by simp
qed

subsection \<open>C4: how the inner filters of a scalable filter were created\<close>

text \<open>
  Claim C4, as stated, fails at position 0: the constructor creates the first filter with
  target size \<open>initial_size\<close> itself, not \<open>initial_size * 2^1 * ln 2\<close>. With
  \<open>(8, 0.01, 0.5)\<close> the first filter is \<open>create(8, 0.01, 0.5)\<close>, and 8 is not \<open>16 * ln 2\<close>
  (the stand-in filter keeps the target size as its capacity).
\<close>

theorem inner_filters_created_with_counterexample:
  "sb_filters sb_demo = [pb_set_seed toy_ext (po_create toy_ext 8 0.01 0.5) 0] \<and>
   pb_capacity (sb_filters sb_demo ! 0) = 8 \<and>
   pb_capacity (sb_filters sb_demo ! 0) \<noteq> 8 * 2 ^ (0 + 1) * ln 2"
proof (intro conjI)
  show "sb_filters sb_demo = [pb_set_seed toy_ext (po_create toy_ext 8 0.01 0.5) 0]"
    by (rule sb_demo_filters)
  show c: "pb_capacity (sb_filters sb_demo ! 0) = 8"
    by (simp add: sb_demo_filters toy_ext_def pb_set_seed_def)
  have "(8::real) \<noteq> 8 * 2 ^ (0 + 1) * ln 2" using ln2_not_half by simp
  then show "pb_capacity (sb_filters sb_demo ! 0) \<noteq> 8 * 2 ^ (0 + 1) * ln 2"
    unfolding c .
qed

text \<open>
  Claim C4, amended. After any sequence of \<open>add\<close> calls on a scalable filter built with
  \<open>(initial_size, error_rate, ratio)\<close>, every call returns, the first inner filter was
  created with \<open>(initial_size, error_rate, ratio)\<close>, and every inner filter at a position
  \<open>j \<ge> 1\<close> was created with target size \<open>initial_size * 2^(j+1) * ln 2\<close>, error rate
  \<open>error_rate * ratio^j\<close> and the same ratio. A filter was created with some arguments if it
  is the result of \<open>create\<close> on them, followed by seed assignments and insertions.
\<close>

theorem inner_filters_created_with:
  "\<exists>f. sb_add_all ext (ScalableBloomFilter ext super n p r) xs = Inr f \<and>
       sb_filters f \<noteq> [] \<and>
       (\<exists>evs. sb_filters f ! 0 = replay ext (po_create ext n p r) evs) \<and>
       (\<forall>j. 1 \<le> j \<and> j < length (sb_filters f) \<longrightarrow>
          (\<exists>evs. sb_filters f ! j =
             replay ext (po_create ext (n * 2 ^ (j + 1) * ln 2) (p * r ^ j) r) evs))"
proof -
  have gen: "sb_filters f \<noteq> [] \<Longrightarrow>
      (\<exists>evs. sb_filters f ! 0 = replay ext (po_create ext n p r) evs) \<Longrightarrow>
      (\<forall>j. 1 \<le> j \<and> j < length (sb_filters f) \<longrightarrow>
             (\<exists>evs. sb_filters f ! j =
                replay ext (po_create ext (n * 2 ^ (j + 1) * ln 2) (p * r ^ j) r) evs)) \<Longrightarrow>
      sb_initial_size f = n \<Longrightarrow> sb_error_rate f = p \<Longrightarrow> sb_ratio f = r \<Longrightarrow>
      \<exists>g. sb_add_all ext f xs = Inr g \<and> sb_filters g \<noteq> [] \<and>
       (\<exists>evs. sb_filters g ! 0 = replay ext (po_create ext n p r) evs) \<and>
       (\<forall>j. 1 \<le> j \<and> j < length (sb_filters g) \<longrightarrow>
          (\<exists>evs. sb_filters g ! j =
             replay ext (po_create ext (n * 2 ^ (j + 1) * ln 2) (p * r ^ j) r) evs))" for f
  proof (induction xs arbitrary: f)
    case Nil
    then show ?case by simp
  next
    case (Cons x xs)
    from sb_add_invariant [OF Cons.prems, of x] obtain f'
      where f': "sb_add ext f x = Inr f'" "sb_filters f' \<noteq> []"
        "\<exists>evs. sb_filters f' ! 0 = replay ext (po_create ext n p r) evs"
        "\<forall>j. 1 \<le> j \<and> j < length (sb_filters f') \<longrightarrow>
             (\<exists>evs. sb_filters f' ! j =
                replay ext (po_create ext (n * 2 ^ (j + 1) * ln 2) (p * r ^ j) r) evs)"
        "sb_initial_size f' = n" "sb_error_rate f' = p" "sb_ratio f' = r"
      by blast
    from Cons.IH [OF f'(2-7)] f'(1) show ?case by simp
  qed
  let ?f0 = "ScalableBloomFilter ext super n p r"
  have "sb_filters ?f0 ! 0 = replay ext (po_create ext n p r) [SeedSet (bf_seed super)]"
    by (simp add: ScalableBloomFilter_def replay_def)
  then have "\<exists>evs. sb_filters ?f0 ! 0 = replay ext (po_create ext n p r) evs" by blast
  then show ?thesis
    by (intro gen) (simp_all add: ScalableBloomFilter_def)
qed

theorem inner_filters_created_with_witness:
  "\<exists>f. sb_add_all toy_ext sb_demo [''a'', ''b''] = Inr f \<and>
       (1::nat) \<le> 1 \<and> 1 < length (sb_filters f) \<and>
       (\<exists>evs. sb_filters f ! 1 =
          replay toy_ext (po_create toy_ext (8 * 2 ^ (1 + 1) * ln 2) (0.01 * 0.5 ^ 1) 0.5) evs)"
proof -
  from inner_filters_created_with [of toy_ext demo_base 8 "0.01" "0.5" "[''a'', ''b'']"]
  obtain f where f: "sb_add_all toy_ext sb_demo [''a'', ''b''] = Inr f"
    and later: "\<forall>j. 1 \<le> j \<and> j < length (sb_filters f) \<longrightarrow>
          (\<exists>evs. sb_filters f ! j =
             replay toy_ext (po_create toy_ext (8 * 2 ^ (j + 1) * ln 2) (0.01 * 0.5 ^ j) 0.5) evs)"
    unfolding sb_demo_def by blast
  from sb_demo_two_adds f have len: "length (sb_filters f) = 2" by simp
  with later have "\<exists>evs. sb_filters f ! 1 =
          replay toy_ext (po_create toy_ext (8 * 2 ^ (1 + 1) * ln 2) (0.01 * 0.5 ^ 1) 0.5) evs"
    by force
  with f len show ?thesis by simp
qed


subsection \<open>C5: the sizes chosen by create\<close>




subsection \<open>C6: the fingerprint length against the hash length\<close>

text \<open>
  Claim C6. \<open>add\<close>, \<open>has\<close> and \<open>remove\<close> fail with \<open>InvalidArgument\<close> exactly when the bit
  length of the element's 64-bit hash is smaller than \<open>fingerprintLength\<close>. The bit length is
  the length of the binary string of the hash padded with zeros to 64 characters, the
  source's \<open>hashstr.length\<close>; it is 64 for every hash.
\<close>

theorem fingerprint_longer_than_hash:
  "hashLength f x = 64 \<and>
   (fst (add f x throwError destructive) = Throw InvalidArgument) = (int (hashLength f x) < cf_fingerprintLength f) \<and>
   (fst (remove f x) = Throw InvalidArgument) = (int (hashLength f x) < cf_fingerprintLength f) \<and>
   (has f x = Throw InvalidArgument) = (int (hashLength f x) < cf_fingerprintLength f)"
proof -
  have len: "hashLength f x = 64" by (simp add: hashLength_def length_hashstr)
  show ?thesis
  proof (cases "locations_of f x")
    case (Inl e)
    then have "e = InvalidArgument" "64 < cf_fingerprintLength f" by (simp_all add: locations_of_Inl)
    with Inl show ?thesis by (simp add: len add_def remove_def has_def)
  next
    case (Inr loc)
    then have le: "\<not> 64 < cf_fingerprintLength f"
      by (auto simp: locations_of_def Let_def length_hashstr split: if_splits)
    have "fst (add f x throwError destructive) \<noteq> Throw InvalidArgument"
      using Inr
      by (auto simp: add_def Let_def split: option.splits prod.splits kick_result.splits outcome.splits if_splits
          dest: rollback_throws)
    moreover have "fst (remove f x) \<noteq> Throw InvalidArgument"
      using Inr by (auto simp: remove_def split: option.splits)
    moreover have "has f x \<noteq> Throw InvalidArgument"
      using Inr by (auto simp: has_def split: option.splits)
    ultimately show ?thesis using le by (simp add: len)
  qed
qed

theorem fingerprint_longer_than_hash_witness:
  "fst (add (tiny\<lparr>cf_fingerprintLength := 65\<rparr>) ''a'' False False) = Throw InvalidArgument \<and>
   fst (remove (tiny\<lparr>cf_fingerprintLength := 65\<rparr>) ''a'') = Throw InvalidArgument \<and>
   has (tiny\<lparr>cf_fingerprintLength := 65\<rparr>) ''a'' = Throw InvalidArgument \<and>
   fst (add tiny ''a'' False False) \<noteq> Throw InvalidArgument \<and>
   has tiny ''a'' \<noteq> Throw InvalidArgument"
  using fingerprint_longer_than_hash [of "tiny\<lparr>cf_fingerprintLength := 65\<rparr>" "''a''" False False]
    fingerprint_longer_than_hash [of tiny "''a''" False False]
  by (simp add: tiny_eq)

subsection \<open>C7: remove\<close>

text \<open>
  Claim C7, as stated, fails: \<open>remove\<close> can raise an error although the fingerprint of the
  element is in no bucket. On a filter whose fingerprint length is above 64, \<open>_locations\<close>
  throws \<open>InvalidArgument\<close>; on a filter built with a size of \<open>2^32\<close> the constructor leaves
  \<open>_size = 0\<close> and no bucket, both indices are \<open>NaN\<close>, and reading the bucket raises a
  \<open>TypeError\<close>. Both filters are empty, and neither is changed.
\<close>

theorem remove_first_match_counterexample:
  "cf_filter wide = replicate 4 \<lparr>bk_size = 2, bk_elements = []\<rparr> \<and>
   remove wide ''a'' = (Throw InvalidArgument, wide) \<and>
   cf_filter hollow = [] \<and>
   remove hollow ''a'' = (Throw TypeError, hollow)"
proof -
  have "remove wide ''a'' = (Throw InvalidArgument, wide)"
    by (simp add: remove_def wide_locations_a)
  moreover have "remove hollow ''a'' = (Throw TypeError, hollow)"
    by (simp add: remove_def hollow_locations_a bucketAt_def)
  moreover have "cf_filter wide = replicate 4 \<lparr>bk_size = 2, bk_elements = []\<rparr>"
    by (simp add: wide_eq)
  moreover have "cf_filter hollow = []"
    by (simp add: hollow_eq)
  ultimately show ?thesis by simp
qed

text \<open>
  Claim C7, amended. On a filter with a fingerprint length of at most 64 and as many buckets
  as \<open>_size\<close> says, at least one, \<open>remove\<close> looks at the bucket at \<open>firstIndex\<close> and then at
  the bucket at \<open>secondIndex\<close>. If the fingerprint is in one of them, one occurrence is deleted
  from the first bucket that has it, \<open>_length\<close> goes down by one and the result is true; if it
  is in neither, the result is false, nothing is thrown and the filter is unchanged.
\<close>

theorem remove_first_match:
  assumes "cf_fingerprintLength f \<le> 64" and "0 < cf_size f" and "length (cf_filter f) = cf_size f"
  shows "\<exists>loc i1 i2.
           locations_of f x = Inr loc \<and> firstIndex loc = Some i1 \<and> secondIndex loc = Some i2 \<and>
           i1 < length (cf_filter f) \<and> i2 < length (cf_filter f) \<and>
           remove f x =
             (if fingerprint loc \<in> set (bk_elements (cf_filter f ! i1))
              then (Return True,
                    f\<lparr>cf_filter := (cf_filter f)
                         [i1 := (cf_filter f ! i1)
                            \<lparr>bk_elements := remove1 (fingerprint loc) (bk_elements (cf_filter f ! i1))\<rparr>],
                      cf_length := cf_length f - 1\<rparr>)
              else if fingerprint loc \<in> set (bk_elements (cf_filter f ! i2))
              then (Return True,
                    f\<lparr>cf_filter := (cf_filter f)
                         [i2 := (cf_filter f ! i2)
                            \<lparr>bk_elements := remove1 (fingerprint loc) (bk_elements (cf_filter f ! i2))\<rparr>],
                      cf_length := cf_length f - 1\<rparr>)
              else (Return False, f))"
proof -
  from assms(1) obtain loc where loc: "locations_of f x = Inr loc"
    using locations_of_Inr_ex by blast
  from locations_indices [OF assms(2) loc] obtain i1 i2
    where ix: "firstIndex loc = Some i1" "secondIndex loc = Some i2" "i1 < cf_size f" "i2 < cf_size f"
    by blast
  have "remove f x =
             (if fingerprint loc \<in> set (bk_elements (cf_filter f ! i1))
              then (Return True,
                    f\<lparr>cf_filter := (cf_filter f)
                         [i1 := (cf_filter f ! i1)
                            \<lparr>bk_elements := remove1 (fingerprint loc) (bk_elements (cf_filter f ! i1))\<rparr>],
                      cf_length := cf_length f - 1\<rparr>)
              else if fingerprint loc \<in> set (bk_elements (cf_filter f ! i2))
              then (Return True,
                    f\<lparr>cf_filter := (cf_filter f)
                         [i2 := (cf_filter f ! i2)
                            \<lparr>bk_elements := remove1 (fingerprint loc) (bk_elements (cf_filter f ! i2))\<rparr>],
                      cf_length := cf_length f - 1\<rparr>)
              else (Return False, f))"
    using ix assms(3)
    by (simp add: remove_def loc bucketAt_def bk_has_iff putBucket_def bk_remove_def)
  with loc ix assms(3) show ?thesis by auto
qed

theorem remove_first_match_witness:
  "cf_fingerprintLength tiny_a \<le> 64 \<and> 0 < cf_size tiny_a \<and>
   length (cf_filter tiny_a) = cf_size tiny_a \<and>
   remove tiny_a ''a'' =
     (Return True, tiny_a\<lparr>cf_filter := [\<lparr>bk_size = 1, bk_elements = []\<rparr>], cf_length := 0\<rparr>)"
proof -
  have h1: "cf_fingerprintLength tiny_a \<le> 64" by (simp add: tiny_a_eq)
  have h2: "0 < cf_size tiny_a" by (simp add: tiny_a_eq)
  have h3: "length (cf_filter tiny_a) = cf_size tiny_a" by (simp add: tiny_a_eq)
  from remove_first_match [OF h1 h2 h3, of "''a''"] obtain loc i1 i2
    where loc: "locations_of tiny_a ''a'' = Inr loc" and i1: "firstIndex loc = Some i1"
      and i2: "secondIndex loc = Some i2"
      and r: "remove tiny_a ''a'' =
             (if fingerprint loc \<in> set (bk_elements (cf_filter tiny_a ! i1))
              then (Return True,
                    tiny_a\<lparr>cf_filter := (cf_filter tiny_a)
                         [i1 := (cf_filter tiny_a ! i1)
                            \<lparr>bk_elements := remove1 (fingerprint loc) (bk_elements (cf_filter tiny_a ! i1))\<rparr>],
                      cf_length := cf_length tiny_a - 1\<rparr>)
              else if fingerprint loc \<in> set (bk_elements (cf_filter tiny_a ! i2))
              then (Return True,
                    tiny_a\<lparr>cf_filter := (cf_filter tiny_a)
                         [i2 := (cf_filter tiny_a ! i2)
                            \<lparr>bk_elements := remove1 (fingerprint loc) (bk_elements (cf_filter tiny_a ! i2))\<rparr>],
                      cf_length := cf_length tiny_a - 1\<rparr>)
              else (Return False, tiny_a))"
    by blast
  from loc have l: "loc = \<lparr>fingerprint = ''00000001'', firstIndex = Some 0, secondIndex = Some 0\<rparr>"
    by (simp add: tiny_a_locations_a)
  with i1 i2 have "i1 = 0" "i2 = 0" "fingerprint loc = ''00000001''" by simp_all
  with r have "remove tiny_a ''a'' =
     (Return True, tiny_a\<lparr>cf_filter := [\<lparr>bk_size = 1, bk_elements = []\<rparr>], cf_length := 0\<rparr>)"
    by (simp add: tiny_a_eq)
  with h1 h2 h3 show ?thesis by simp
qed

subsection \<open>C8: equals\<close>

text \<open>
  Claim C8. For two filters with the same number of buckets, \<open>equals\<close> returns true iff the
  buckets are pairwise equal (by the bucket comparison of the \<open>Bucket\<close> class), whatever
  the other fields \<open>_seed\<close>, \<open>_length\<close>, \<open>_bucketSize\<close>, \<open>_fingerprintLength\<close> and
  \<open>_maxKicks\<close> of the two filters are.
\<close>

theorem equals_compares_buckets_only:
  assumes "length (cf_filter g) = length (cf_filter f)"
    and "cf_filter f' = cf_filter f" and "cf_filter g' = cf_filter g"
  shows "equals bucket_equals f' g' =
           Return (list_all2 (\<lambda>a b. bucket_equals b a) (cf_filter f) (cf_filter g))"
  using assms equals_loop_eq [of g' f' bucket_equals 0 True] by (simp add: equals_def)

theorem equals_compares_buckets_only_witness:
  "length (cf_filter tiny_a) = length (cf_filter tiny_a) \<and>
   equals (=) (tiny_a\<lparr>bf_seed := 5, cf_length := 7\<rparr>) (tiny_a\<lparr>cf_maxKicks := 3\<rparr>) = Return True"
proof -
  have h: "length (cf_filter tiny_a) = length (cf_filter tiny_a)" by simp
  have "list_all2 (\<lambda>a b. b = a) (cf_filter tiny_a) (cf_filter tiny_a)"
    by (simp add: list_all2_same)
  with equals_compares_buckets_only [OF h, of "tiny_a\<lparr>bf_seed := 5, cf_length := 7\<rparr>"
      "tiny_a\<lparr>cf_maxKicks := 3\<rparr>" "(=)"]
  show ?thesis by simp
qed

subsection \<open>C9: the seed setter of the scalable filter\<close>

text \<open>
  Claim C9. Assigning \<open>seed = s\<close> sets \<open>_seed\<close> to \<open>s\<close>, reseeds the random source from
  \<open>s\<close>, and gives every inner filter the seed \<open>s\<close>; the number and order of the inner
  filters, their bit vectors and sizing fields, and \<open>_initial_size\<close>, \<open>_error_rate\<close> and
  \<open>_ratio\<close> stay as they were.
\<close>

theorem seed_setter_propagates:
  "bf_seed (sb_set_seed ext f s) = s \<and>
   bf_rng (sb_set_seed ext f s) = po_seedrandom ext s \<and>
   length (sb_filters (sb_set_seed ext f s)) = length (sb_filters f) \<and>
   map bf_seed (sb_filters (sb_set_seed ext f s)) = replicate (length (sb_filters f)) s \<and>
   map bf_rng (sb_filters (sb_set_seed ext f s)) =
     replicate (length (sb_filters f)) (po_seedrandom ext s) \<and>
   map pb_filter (sb_filters (sb_set_seed ext f s)) = map pb_filter (sb_filters f) \<and>
   map pb_size (sb_filters (sb_set_seed ext f s)) = map pb_size (sb_filters f) \<and>
   map pb_nbHashes (sb_filters (sb_set_seed ext f s)) = map pb_nbHashes (sb_filters f) \<and>
   map pb_loadFactor (sb_filters (sb_set_seed ext f s)) = map pb_loadFactor (sb_filters f) \<and>
   map pb_capacity (sb_filters (sb_set_seed ext f s)) = map pb_capacity (sb_filters f) \<and>
   sb_initial_size (sb_set_seed ext f s) = sb_initial_size f \<and>
   sb_error_rate (sb_set_seed ext f s) = sb_error_rate f \<and>
   sb_ratio (sb_set_seed ext f s) = sb_ratio f"
  by (simp add: sb_set_seed_def pb_set_seed_def comp_def map_replicate_const)

theorem seed_setter_propagates_witness:
  "bf_seed (sb_set_seed toy_ext sb_demo 7) = 7 \<and>
   map bf_seed (sb_filters (sb_set_seed toy_ext sb_demo 7)) = [7] \<and>
   map pb_filter (sb_filters (sb_set_seed toy_ext sb_demo 7)) = [[[False]]] \<and>
   sb_initial_size (sb_set_seed toy_ext sb_demo 7) = 8"
  using seed_setter_propagates [of toy_ext sb_demo 7]
  by (simp add: sb_demo_filters) (simp add: sb_demo_def ScalableBloomFilter_def toy_ext_def pb_set_seed_def)

subsection \<open>C10: the counter equals the number of stored fingerprints\<close>

text \<open>
  Claim C10. A filter built by the constructor has \<open>_length\<close> equal to the sum of the bucket
  lengths, and every \<open>add\<close> call (any flags, whether it returns or throws) and every
  \<open>remove\<close> call keeps the equality.
\<close>

theorem length_counts_fingerprints:
  "cf_length (CuckooFilter super sz fl bs mk) = used (CuckooFilter super sz fl bs mk) \<and>
   (cf_length f = used f \<longrightarrow>
      cf_length (snd (add f x throwError destructive)) = used (snd (add f x throwError destructive)) \<and>
      cf_length (snd (remove f x)) = used (snd (remove f x)))"
proof -
  have "cf_length (CuckooFilter super sz fl bs mk) = 0"
    by (simp add: CuckooFilter_def Let_def)
  then show ?thesis
    using add_balance [of f x throwError destructive] remove_balance [of f x]
    by (auto simp: used_constructor)
qed

theorem length_counts_fingerprints_witness:
  "cf_length tiny_a = used tiny_a \<and>
   cf_length (snd (add tiny_a ''a'' False True)) = used (snd (add tiny_a ''a'' False True)) \<and>
   cf_length (snd (remove tiny_a ''a'')) = used (snd (remove tiny_a ''a''))"
proof -
  have h: "cf_length tiny_a = used tiny_a" by (simp add: tiny_a_eq used_def bk_length_def)
  with length_counts_fingerprints [of demo_base 1 8 1 1 tiny_a "''a''" False True]
  show ?thesis by simp
qed

end
